theory Spec2Isabelle
  imports Main "HOL-Library.Sublist"
begin

section \<open>Inbound trunk and dispatch rule setup (setup_inbound.py)\<close>

text \<open>
  The script is one coroutine, \<open>main\<close>, that talks to a remote telephony control plane
  through an API client. The embedding follows it statement by statement. The remote
  service and the client library are not part of the script; they are modelled as a
  store of trunks and dispatch rules with the seven requests the script issues. Every
  request is logged with its outcome, so that properties of the order of requests can
  be stated on the log. Console output has no effect on control flow or on the remote
  state and is not modelled; the values of the final summary are returned instead.
\<close>

subsection \<open>Remote resources\<close>

text \<open>\<open>SIPInboundTrunkInfo\<close>, with the fields the script reads or writes.\<close>

record trunk =
  sip_trunk_id :: string
  trunk_name :: string
  numbers :: "string list"
  allowed_addresses :: "string list"
  krisp_enabled :: bool

text \<open>\<open>SIPDispatchRule\<close> is a one-of; the script builds the individual variant.\<close>

datatype sip_dispatch_rule =
    dispatch_rule_direct string
  | dispatch_rule_individual string
  | dispatch_rule_callee string

text \<open>
  \<open>SIPDispatchRuleInfo\<close>; \<open>room_config_agents\<close> holds the \<open>agent_name\<close> of every
  \<open>RoomAgentDispatch\<close> of \<open>room_config.agents\<close>.
\<close>

record dispatch_rule_info =
  sip_dispatch_rule_id :: string
  rule_name :: string
  trunk_ids :: "string list"
  rule :: sip_dispatch_rule
  room_config_agents :: "string list"

subsection \<open>Requests, errors and the world\<close>

datatype request =
    ListSIPInboundTrunk
  | ListSIPDispatchRule
  | DeleteSIPDispatchRule string
  | DeleteSIPTrunk string
  | CreateSIPInboundTrunk trunk
  | CreateSIPDispatchRule dispatch_rule_info
  | AClose

text \<open>
  \<open>AttributeError\<close>: a method call on \<open>None\<close>. \<open>ClientError\<close>: the client constructor
  raised. \<open>RemoteError rq\<close>: the request \<open>rq\<close> raised (network, authentication, validation).
\<close>

datatype error = AttributeError | ClientError | RemoteError request

text \<open>
  The world the script runs in. \<open>trunks\<close> and \<open>rules\<close> are what the remote service
  stores. \<open>calls\<close> is the log of requests issued so far, each with \<open>True\<close> when it
  returned and \<open>False\<close> when it raised. \<open>faults\<close> says which requests raise: the request
  issued when the log holds \<open>k\<close> entries raises iff \<open>faults k\<close>. A request that raises
  leaves the store as it was. \<open>fresh_ids\<close> and \<open>issued\<close> are the identifiers the remote
  service assigns to created resources, in order. \<open>client_ok\<close> says whether the client
  constructor returns a handle, \<open>opened\<close> counts the handles constructed.
\<close>

record world =
  trunks :: "trunk list"
  rules :: "dispatch_rule_info list"
  calls :: "(request \<times> bool) list"
  faults :: "nat \<Rightarrow> bool"
  fresh_ids :: "nat \<Rightarrow> string"
  issued :: nat
  client_ok :: bool
  opened :: nat

definition issue :: "request \<Rightarrow> world \<Rightarrow> bool \<times> world" where
  "issue rq w =
     (let ok = \<not> faults w (length (calls w))
      in (ok, w\<lparr>calls := calls w @ [(rq, ok)]\<rparr>))"

text \<open>\<open>lk = api.LiveKitAPI()\<close>\<close>

definition LiveKitAPI :: "world \<Rightarrow> (error + unit) \<times> world" where
  "LiveKitAPI w =
     (if client_ok w then (Inr (), w\<lparr>opened := Suc (opened w)\<rparr>)
      else (Inl ClientError, w))"

text \<open>\<open>lk.sip.list_sip_inbound_trunk(ListSIPInboundTrunkRequest())\<close>, its \<open>items\<close>.\<close>

definition list_sip_inbound_trunk :: "world \<Rightarrow> (error + trunk list) \<times> world" where
  "list_sip_inbound_trunk w =
     (case issue ListSIPInboundTrunk w of
        (ok, w') \<Rightarrow>
          if ok then (Inr (trunks w'), w')
          else (Inl (RemoteError ListSIPInboundTrunk), w'))"

text \<open>\<open>lk.sip.list_sip_dispatch_rule(ListSIPDispatchRuleRequest())\<close>, its \<open>items\<close>.\<close>

definition list_sip_dispatch_rule :: "world \<Rightarrow> (error + dispatch_rule_info list) \<times> world" where
  "list_sip_dispatch_rule w =
     (case issue ListSIPDispatchRule w of
        (ok, w') \<Rightarrow>
          if ok then (Inr (rules w'), w')
          else (Inl (RemoteError ListSIPDispatchRule), w'))"

text \<open>The remote service removes the rule stored under the identifier.\<close>

definition delete_sip_dispatch_rule :: "string \<Rightarrow> world \<Rightarrow> (error + unit) \<times> world" where
  "delete_sip_dispatch_rule rid w =
     (case issue (DeleteSIPDispatchRule rid) w of
        (ok, w') \<Rightarrow>
          if ok
          then (Inr (), w'\<lparr>rules := filter (\<lambda>r. sip_dispatch_rule_id r \<noteq> rid) (rules w')\<rparr>)
          else (Inl (RemoteError (DeleteSIPDispatchRule rid)), w'))"

text \<open>The remote service removes the trunk stored under the identifier.\<close>

definition delete_sip_trunk :: "string \<Rightarrow> world \<Rightarrow> (error + unit) \<times> world" where
  "delete_sip_trunk tid w =
     (case issue (DeleteSIPTrunk tid) w of
        (ok, w') \<Rightarrow>
          if ok
          then (Inr (), w'\<lparr>trunks := filter (\<lambda>t. sip_trunk_id t \<noteq> tid) (trunks w')\<rparr>)
          else (Inl (RemoteError (DeleteSIPTrunk tid)), w'))"

text \<open>
  The remote service stores the trunk under the next identifier it assigns and returns
  the stored trunk.
\<close>

definition create_sip_inbound_trunk :: "trunk \<Rightarrow> world \<Rightarrow> (error + trunk) \<times> world" where
  "create_sip_inbound_trunk info w =
     (case issue (CreateSIPInboundTrunk info) w of
        (ok, w') \<Rightarrow>
          if ok
          then (let t = info\<lparr>sip_trunk_id := fresh_ids w' (issued w')\<rparr>
                in (Inr t, w'\<lparr>trunks := trunks w' @ [t], issued := Suc (issued w')\<rparr>))
          else (Inl (RemoteError (CreateSIPInboundTrunk info)), w'))"

definition create_sip_dispatch_rule ::
    "dispatch_rule_info \<Rightarrow> world \<Rightarrow> (error + dispatch_rule_info) \<times> world" where
  "create_sip_dispatch_rule info w =
     (case issue (CreateSIPDispatchRule info) w of
        (ok, w') \<Rightarrow>
          if ok
          then (let r = info\<lparr>sip_dispatch_rule_id := fresh_ids w' (issued w')\<rparr>
                in (Inr r, w'\<lparr>rules := rules w' @ [r], issued := Suc (issued w')\<rparr>))
          else (Inl (RemoteError (CreateSIPDispatchRule info)), w'))"

text \<open>\<open>lk.aclose()\<close>\<close>

definition aclose :: "world \<Rightarrow> (error + unit) \<times> world" where
  "aclose w =
     (case issue AClose w of
        (ok, w') \<Rightarrow> if ok then (Inr (), w') else (Inl (RemoteError AClose), w'))"

subsection \<open>Configuration\<close>

text \<open>The two environment variables the module reads; \<open>None\<close> is an unset variable.\<close>

record environ =
  env_LIVEKIT_URL :: "string option"
  env_VOBIZ_INBOUND_NUMBER :: "string option"

definition LIVEKIT_URL :: "environ \<Rightarrow> string option" where
  "LIVEKIT_URL env = env_LIVEKIT_URL env"

definition VOBIZ_INBOUND_NUMBER :: "environ \<Rightarrow> string" where
  "VOBIZ_INBOUND_NUMBER env =
     (case env_VOBIZ_INBOUND_NUMBER env of None \<Rightarrow> ''+912271264190'' | Some n \<Rightarrow> n)"

definition AGENT_NAME :: string where
  "AGENT_NAME = ''voice-assistant''"

subsection \<open>Deriving the SIP endpoint\<close>

text \<open>
  \<open>str.replace(old, new)\<close> for a non-empty \<open>old\<close>: the occurrences of \<open>old\<close> are replaced
  from the left, without overlap.
\<close>

function replace_ne :: "string \<Rightarrow> string \<Rightarrow> string \<Rightarrow> string" where
  "replace_ne old new s =
     (if s = [] \<or> old = [] then s
      else if prefix old s then new @ replace_ne old new (drop (length old) s)
      else hd s # replace_ne old new (tl s))"
  by pat_completeness auto
termination
  by (relation "measure (\<lambda>(old, new, s). length s)") auto

text \<open>\<open>str.replace\<close>; an empty \<open>old\<close> matches before every character and at the end.\<close>

definition str_replace :: "string \<Rightarrow> string \<Rightarrow> string \<Rightarrow> string" where
  "str_replace old new s =
     (if old = [] then new @ concat (map (\<lambda>c. c # new) s) else replace_ne old new s)"

text \<open>\<open>s.split(".")[0]\<close>: the text before the first dot, all of \<open>s\<close> when it has none.\<close>

definition split_dot_first :: "string \<Rightarrow> string" where
  "split_dot_first s = takeWhile (\<lambda>c. c \<noteq> CHR ''.'') s"

text \<open>
  \<open>project_id = LIVEKIT_URL.replace("wss://", "").replace("ws://", "").split(".")[0]\<close>.
  With \<open>LIVEKIT_URL\<close> unset the first method call is made on \<open>None\<close> and raises.
\<close>

definition project_id :: "string option \<Rightarrow> error + string" where
  "project_id url =
     (case url of
        None \<Rightarrow> Inl AttributeError
      | Some u \<Rightarrow> Inr (split_dot_first (str_replace ''ws://'' '''' (str_replace ''wss://'' '''' u))))"

definition sip_endpoint :: "string \<Rightarrow> string" where
  "sip_endpoint pid = pid @ ''.sip.livekit.cloud''"

subsection \<open>The reconciliation procedure\<close>

text \<open>
  The loop over \<open>trunks.items\<close> (lines 37 to 41); \<open>acc\<close> is \<open>trunks_to_delete\<close>.
  \<open>t.numbers and NUMBER in t.numbers\<close>: a non-empty list that holds the number.
\<close>

fun find_conflicts :: "string \<Rightarrow> trunk list \<Rightarrow> string list \<Rightarrow> string list" where
  "find_conflicts number [] acc = acc"
| "find_conflicts number (t # ts) acc =
     (if numbers t \<noteq> [] \<and> number \<in> set (numbers t)
      then find_conflicts number ts (acc @ [sip_trunk_id t])
      else find_conflicts number ts acc)"

text \<open>\<open>any(trunk_id in r.trunk_ids for trunk_id in trunks_to_delete)\<close>\<close>

definition linked :: "string list \<Rightarrow> dispatch_rule_info \<Rightarrow> bool" where
  "linked trunks_to_delete r = list_ex (\<lambda>trunk_id. trunk_id \<in> set (trunk_ids r)) trunks_to_delete"

text \<open>The loop over \<open>rules.items\<close> (lines 49 to 54); a request that raises ends it.\<close>

fun delete_linked_rules ::
    "string list \<Rightarrow> dispatch_rule_info list \<Rightarrow> world \<Rightarrow> (error + unit) \<times> world" where
  "delete_linked_rules trunks_to_delete [] w = (Inr (), w)"
| "delete_linked_rules trunks_to_delete (r # rs) w =
     (if linked trunks_to_delete r
      then (case delete_sip_dispatch_rule (sip_dispatch_rule_id r) w of
              (Inl e, w') \<Rightarrow> (Inl e, w')
            | (Inr _, w') \<Rightarrow> delete_linked_rules trunks_to_delete rs w')
      else delete_linked_rules trunks_to_delete rs w)"

text \<open>The loop over \<open>trunks_to_delete\<close> (lines 57 to 61).\<close>

fun delete_trunks :: "string list \<Rightarrow> world \<Rightarrow> (error + unit) \<times> world" where
  "delete_trunks [] w = (Inr (), w)"
| "delete_trunks (trunk_id # rest) w =
     (case delete_sip_trunk trunk_id w of
        (Inl e, w') \<Rightarrow> (Inl e, w')
      | (Inr _, w') \<Rightarrow> delete_trunks rest w')"

text \<open>The branch \<open>if trunks_to_delete:\<close> (lines 44 to 64).\<close>

definition resolve_conflicts :: "string list \<Rightarrow> world \<Rightarrow> (error + unit) \<times> world" where
  "resolve_conflicts trunks_to_delete w =
     (if trunks_to_delete \<noteq> []
      then (case list_sip_dispatch_rule w of
              (Inl e, w1) \<Rightarrow> (Inl e, w1)
            | (Inr items, w1) \<Rightarrow>
                (case delete_linked_rules trunks_to_delete items w1 of
                   (Inl e, w2) \<Rightarrow> (Inl e, w2)
                 | (Inr _, w2) \<Rightarrow> delete_trunks trunks_to_delete w2))
      else (Inr (), w))"

text \<open>The trunk of the create request (lines 70 to 75); the remote service assigns its id.\<close>

definition new_trunk :: "string \<Rightarrow> trunk" where
  "new_trunk number =
     \<lparr>sip_trunk_id = '''', trunk_name = ''Vobiz Inbound'', numbers = [number],
      allowed_addresses = [''0.0.0.0/0''], krisp_enabled = True\<rparr>"

text \<open>The dispatch rule of the create request (lines 83 to 96).\<close>

definition new_dispatch_rule :: "string \<Rightarrow> dispatch_rule_info" where
  "new_dispatch_rule trunk_id =
     \<lparr>sip_dispatch_rule_id = '''', rule_name = ''Inbound Agent Dispatch'',
      trunk_ids = [trunk_id], rule = dispatch_rule_individual ''call-'',
      room_config_agents = [AGENT_NAME]\<rparr>"

text \<open>What the summary prints: the two new identifiers and the SIP endpoint.\<close>

record summary =
  inbound_trunk :: string
  dispatch_rule :: string
  primary_uri :: string

text \<open>The body of the \<open>try\<close> statement (lines 31 to 116).\<close>

definition try_body :: "string \<Rightarrow> string \<Rightarrow> world \<Rightarrow> (error + summary) \<times> world" where
  "try_body number endpoint w =
     (case list_sip_inbound_trunk w of
        (Inl e, w1) \<Rightarrow> (Inl e, w1)
      | (Inr items, w1) \<Rightarrow>
          (let trunks_to_delete = find_conflicts number items []
           in case resolve_conflicts trunks_to_delete w1 of
                (Inl e, w2) \<Rightarrow> (Inl e, w2)
              | (Inr _, w2) \<Rightarrow>
                  (case create_sip_inbound_trunk (new_trunk number) w2 of
                     (Inl e, w3) \<Rightarrow> (Inl e, w3)
                   | (Inr t, w3) \<Rightarrow>
                       (let trunk_id = sip_trunk_id t
                        in case create_sip_dispatch_rule (new_dispatch_rule trunk_id) w3 of
                             (Inl e, w4) \<Rightarrow> (Inl e, w4)
                           | (Inr result, w4) \<Rightarrow>
                               (Inr \<lparr>inbound_trunk = trunk_id,
                                     dispatch_rule = sip_dispatch_rule_id result,
                                     primary_uri = endpoint\<rparr>, w4)))))"

text \<open>
  \<open>try: ... finally: await lk.aclose()\<close>. The handler runs on every exit of the body;
  when it raises, its exception is the one that propagates.
\<close>

definition try_finally :: "string \<Rightarrow> string \<Rightarrow> world \<Rightarrow> (error + summary) \<times> world" where
  "try_finally number endpoint w =
     (case try_body number endpoint w of
        (res, w1) \<Rightarrow>
          (case aclose w1 of
             (Inl e, w2) \<Rightarrow> (Inl e, w2)
           | (Inr _, w2) \<Rightarrow> (res, w2)))"

text \<open>
  \<open>main\<close> (lines 17 to 119): the client is constructed, the endpoint derived, and only
  then the \<open>try\<close> statement is entered.
\<close>

definition main :: "environ \<Rightarrow> world \<Rightarrow> (error + summary) \<times> world" where
  "main env w =
     (case LiveKitAPI w of
        (Inl e, w0) \<Rightarrow> (Inl e, w0)
      | (Inr _, w0) \<Rightarrow>
          (case project_id (LIVEKIT_URL env) of
             Inl e \<Rightarrow> (Inl e, w0)
           | Inr pid \<Rightarrow> try_finally (VOBIZ_INBOUND_NUMBER env) (sip_endpoint pid) w0))"

text \<open>The requests one run of \<open>main\<close> adds to the log.\<close>

definition trace :: "environ \<Rightarrow> world \<Rightarrow> (request \<times> bool) list" where
  "trace env w = drop (length (calls w)) (calls (snd (main env w)))"

section \<open>Notions used to state the properties\<close>

subsection \<open>Planned requests and the log they leave\<close>

text \<open>
  The requests of a plan are issued in order, the first when the log holds \<open>n\<close>
  entries; the first request that raises is logged and ends the sequence.
\<close>

fun attempt :: "(nat \<Rightarrow> bool) \<Rightarrow> nat \<Rightarrow> request list \<Rightarrow> (request \<times> bool) list" where
  "attempt f n [] = []"
| "attempt f n (rq # rqs) = (if f n then [(rq, False)] else (rq, True) # attempt f (Suc n) rqs)"

text \<open>
  The requests the body of the \<open>try\<close> statement issues when none of them raises, read
  off lines 34 to 100: the trunks are listed; when a listed trunk carries the number, the
  rules are listed, the linked rules deleted in the order of the list, then the
  conflicting trunks; last come the two create requests. The second create request names
  the identifier the remote service assigns to the new trunk.
\<close>

definition rule_deletions :: "string list \<Rightarrow> dispatch_rule_info list \<Rightarrow> request list" where
  "rule_deletions ttd rs =
     map (\<lambda>r. DeleteSIPDispatchRule (sip_dispatch_rule_id r)) (filter (linked ttd) rs)"

definition cleanup_plan :: "string list \<Rightarrow> dispatch_rule_info list \<Rightarrow> request list" where
  "cleanup_plan ttd rs =
     (if ttd \<noteq> [] then ListSIPDispatchRule # rule_deletions ttd rs @ map DeleteSIPTrunk ttd
      else [])"

definition body_plan :: "string \<Rightarrow> world \<Rightarrow> request list" where
  "body_plan number w =
     ListSIPInboundTrunk # cleanup_plan (find_conflicts number (trunks w) []) (rules w)
       @ [CreateSIPInboundTrunk (new_trunk number),
          CreateSIPDispatchRule (new_dispatch_rule (fresh_ids w (issued w)))]"

text \<open>
  What the remote service stores for the two create requests: the resource of the
  request under the next identifier it assigns.
\<close>

definition stored_trunk :: "string \<Rightarrow> world \<Rightarrow> trunk" where
  "stored_trunk number w = (new_trunk number)\<lparr>sip_trunk_id := fresh_ids w (issued w)\<rparr>"

definition stored_rule :: "world \<Rightarrow> dispatch_rule_info" where
  "stored_rule w =
     (new_dispatch_rule (fresh_ids w (issued w)))\<lparr>sip_dispatch_rule_id := fresh_ids w (Suc (issued w))\<rparr>"

text \<open>
  The two create requests that end the body (lines 66 to 101), as a function of their
  own; \<open>try_body\<close> is the listing, the cleanup and then this.
\<close>

definition create_pair :: "string \<Rightarrow> string \<Rightarrow> world \<Rightarrow> (error + summary) \<times> world" where
  "create_pair number endpoint w2 =
     (case create_sip_inbound_trunk (new_trunk number) w2 of
        (Inl e, w3) \<Rightarrow> (Inl e, w3)
      | (Inr t, w3) \<Rightarrow>
          (let trunk_id = sip_trunk_id t
           in case create_sip_dispatch_rule (new_dispatch_rule trunk_id) w3 of
                (Inl e, w4) \<Rightarrow> (Inl e, w4)
              | (Inr result, w4) \<Rightarrow>
                  (Inr \<lparr>inbound_trunk = trunk_id,
                        dispatch_rule = sip_dispatch_rule_id result,
                        primary_uri = endpoint\<rparr>, w4)))"

subsection \<open>Kinds of request\<close>

fun is_deletion :: "request \<Rightarrow> bool" where
  "is_deletion (DeleteSIPDispatchRule _) = True"
| "is_deletion (DeleteSIPTrunk _) = True"
| "is_deletion _ = False"

fun is_creation :: "request \<Rightarrow> bool" where
  "is_creation (CreateSIPInboundTrunk _) = True"
| "is_creation (CreateSIPDispatchRule _) = True"
| "is_creation _ = False"

fun is_create_trunk :: "request \<Rightarrow> bool" where
  "is_create_trunk (CreateSIPInboundTrunk _) = True"
| "is_create_trunk _ = False"

fun is_create_rule :: "request \<Rightarrow> bool" where
  "is_create_rule (CreateSIPDispatchRule _) = True"
| "is_create_rule _ = False"

subsection \<open>Trunks and rules of a number\<close>



subsection \<open>Example worlds\<close>

text \<open>
  A project URL is set and the number is the default one; or nothing is set.
\<close>

definition example_env :: environ where
  "example_env = \<lparr>env_LIVEKIT_URL = Some ''wss://demo.livekit.cloud'', env_VOBIZ_INBOUND_NUMBER = None\<rparr>"

definition unset_env :: environ where
  "unset_env = \<lparr>env_LIVEKIT_URL = None, env_VOBIZ_INBOUND_NUMBER = None\<rparr>"

text \<open>
  The remote service holds a trunk with the default number and one with another number, a
  rule on the first trunk, a rule on both and a rule on the second. No request raises. In
  \<open>empty_world\<close> the service holds nothing; in \<open>failing_world\<close> the fourth request of
  the run raises, which is the second deletion of a rule.
\<close>

definition example_ids :: "nat \<Rightarrow> string" where
  "example_ids n =
     (if n = 0 then ''ST_a'' else if n = 1 then ''SDR_a'' else if n = 2 then ''ST_b'' else ''SDR_b'')"

definition old_trunk :: trunk where
  "old_trunk = \<lparr>sip_trunk_id = ''ST_1'', trunk_name = ''old'', numbers = [''+912271264190''],
      allowed_addresses = [], krisp_enabled = False\<rparr>"

definition other_trunk :: trunk where
  "other_trunk = \<lparr>sip_trunk_id = ''ST_2'', trunk_name = ''other'', numbers = [''+15550100''],
      allowed_addresses = [], krisp_enabled = False\<rparr>"

definition old_rule :: dispatch_rule_info where
  "old_rule = \<lparr>sip_dispatch_rule_id = ''SDR_1'', rule_name = ''old'', trunk_ids = [''ST_1''],
      rule = dispatch_rule_direct ''lobby'', room_config_agents = []\<rparr>"

definition mixed_rule :: dispatch_rule_info where
  "mixed_rule = \<lparr>sip_dispatch_rule_id = ''SDR_2'', rule_name = ''mixed'', trunk_ids = [''ST_2'', ''ST_1''],
      rule = dispatch_rule_direct ''lobby'', room_config_agents = []\<rparr>"

definition other_rule :: dispatch_rule_info where
  "other_rule = \<lparr>sip_dispatch_rule_id = ''SDR_3'', rule_name = ''other'', trunk_ids = [''ST_2''],
      rule = dispatch_rule_direct ''lobby'', room_config_agents = []\<rparr>"

definition example_world :: world where
  "example_world =
     \<lparr>trunks = [old_trunk, other_trunk], rules = [old_rule, mixed_rule, other_rule],
      calls = [], faults = (\<lambda>k. False), fresh_ids = example_ids, issued = 0,
      client_ok = True, opened = 0\<rparr>"

definition empty_world :: world where
  "empty_world = example_world\<lparr>trunks := [], rules := []\<rparr>"

definition failing_world :: world where
  "failing_world = example_world\<lparr>faults := (\<lambda>k. k = 3)\<rparr>"

text \<open>The example world with a client constructor that raises.\<close>

definition no_client_world :: world where
  "no_client_world = example_world\<lparr>client_ok := False\<rparr>"

section \<open>Conflict discovery\<close>

lemma find_conflicts_acc:
  "find_conflicts number ts acc =
     acc @ map sip_trunk_id (filter (\<lambda>t. number \<in> set (numbers t)) ts)"
  by (induction ts arbitrary: acc) auto

section \<open>The log of a plan\<close>

lemma attempt_append:
  "attempt f n (p @ q) =
     (if list_all snd (attempt f n p) then attempt f n p @ attempt f (n + length p) q
      else attempt f n p)"
  by (induction p arbitrary: n) auto

lemma attempt_ok:
  "list_all snd (attempt f n p) \<Longrightarrow> attempt f n p = map (\<lambda>rq. (rq, True)) p"
  by (induction p arbitrary: n) (auto split: if_splits)

lemma attempt_fail:
  "\<not> list_all snd (attempt f n p) \<Longrightarrow>
     \<exists>xs rq ys. p = xs @ rq # ys \<and> attempt f n p = map (\<lambda>rq. (rq, True)) xs @ [(rq, False)]"
proof (induction p arbitrary: n)
  case Nil
  then show ?case by simp
next
  case (Cons a p)
  show ?case
  proof (cases "f n")
    case True
    then have "a # p = [] @ a # p \<and> attempt f n (a # p) = map (\<lambda>rq. (rq, True)) [] @ [(a, False)]"
      by simp
    then show ?thesis by blast
  next
    case False
    with Cons.prems have "\<not> list_all snd (attempt f (Suc n) p)" by simp
    from Cons.IH[OF this] obtain xs rq ys where
      "p = xs @ rq # ys" "attempt f (Suc n) p = map (\<lambda>rq. (rq, True)) xs @ [(rq, False)]"
      by blast
    with False have "a # p = (a # xs) @ rq # ys \<and>
        attempt f n (a # p) = map (\<lambda>rq. (rq, True)) (a # xs) @ [(rq, False)]"
      by simp
    then show ?thesis by blast
  qed
qed

section \<open>The two deletion loops\<close>

lemma delete_linked_rules_log:
  "delete_linked_rules ttd rs w = (res, w') \<Longrightarrow>
     calls w' = calls w @ attempt (faults w) (length (calls w))
        (map (\<lambda>r. DeleteSIPDispatchRule (sip_dispatch_rule_id r)) (filter (linked ttd) rs))
     \<and> isl res = (\<not> list_all snd (attempt (faults w) (length (calls w))
        (map (\<lambda>r. DeleteSIPDispatchRule (sip_dispatch_rule_id r)) (filter (linked ttd) rs))))
     \<and> faults w' = faults w \<and> trunks w' = trunks w \<and> fresh_ids w' = fresh_ids w
     \<and> issued w' = issued w \<and> client_ok w' = client_ok w \<and> opened w' = opened w"
proof (induction rs arbitrary: w)
  case Nil
  then show ?case by auto
next
  case (Cons r rs)
  show ?case
  proof (cases "linked ttd r")
    case False
    with Cons show ?thesis by simp
  next
    case True
    show ?thesis
    proof (cases "faults w (length (calls w))")
      case True
      with \<open>linked ttd r\<close> Cons.prems show ?thesis
        by (auto simp: delete_sip_dispatch_rule_def issue_def)
    next
      case False
      define w1 where "w1 = w\<lparr>calls := calls w @ [(DeleteSIPDispatchRule (sip_dispatch_rule_id r), True)],
          rules := filter (\<lambda>x. sip_dispatch_rule_id x \<noteq> sip_dispatch_rule_id r) (rules w)\<rparr>"
      from False \<open>linked ttd r\<close> Cons.prems have "delete_linked_rules ttd rs w1 = (res, w')"
        by (simp add: delete_sip_dispatch_rule_def issue_def w1_def)
      from Cons.IH[OF this] False \<open>linked ttd r\<close> show ?thesis
        by (simp add: w1_def)
    qed
  qed
qed

lemma delete_linked_rules_store:
  "delete_linked_rules ttd rs w = (res, w') \<Longrightarrow>
     \<exists>ds. set ds \<subseteq> set (filter (linked ttd) rs)
       \<and> rules w' = filter (\<lambda>r. sip_dispatch_rule_id r \<notin> sip_dispatch_rule_id ` set ds) (rules w)
       \<and> (\<not> isl res \<longrightarrow> ds = filter (linked ttd) rs)"
proof (induction rs arbitrary: w)
  case Nil
  then have "set [] \<subseteq> set (filter (linked ttd) []) \<and>
      rules w' = filter (\<lambda>r. sip_dispatch_rule_id r \<notin> sip_dispatch_rule_id ` set []) (rules w) \<and>
      (\<not> isl res \<longrightarrow> [] = filter (linked ttd) [])"
    by auto
  then show ?case by blast
next
  case (Cons r rs)
  show ?case
  proof (cases "linked ttd r")
    case False
    with Cons.prems have "delete_linked_rules ttd rs w = (res, w')" by simp
    from Cons.IH[OF this] False show ?thesis by auto
  next
    case True
    show ?thesis
    proof (cases "faults w (length (calls w))")
      case True
      with \<open>linked ttd r\<close> Cons.prems have "rules w' = rules w" "isl res"
        by (auto simp: delete_sip_dispatch_rule_def issue_def)
      then have "set [] \<subseteq> set (filter (linked ttd) (r # rs)) \<and>
        rules w' = filter (\<lambda>r. sip_dispatch_rule_id r \<notin> sip_dispatch_rule_id ` set []) (rules w) \<and>
        (\<not> isl res \<longrightarrow> [] = filter (linked ttd) (r # rs))"
        by simp
      then show ?thesis by blast
    next
      case False
      define w1 where "w1 = w\<lparr>calls := calls w @ [(DeleteSIPDispatchRule (sip_dispatch_rule_id r), True)],
          rules := filter (\<lambda>x. sip_dispatch_rule_id x \<noteq> sip_dispatch_rule_id r) (rules w)\<rparr>"
      from False \<open>linked ttd r\<close> Cons.prems have "delete_linked_rules ttd rs w1 = (res, w')"
        by (simp add: delete_sip_dispatch_rule_def issue_def w1_def)
      from Cons.IH[OF this] obtain ds where ds:
        "set ds \<subseteq> set (filter (linked ttd) rs)"
        "rules w' = filter (\<lambda>r. sip_dispatch_rule_id r \<notin> sip_dispatch_rule_id ` set ds) (rules w1)"
        "\<not> isl res \<longrightarrow> ds = filter (linked ttd) rs"
        by blast
      have "rules w' = filter (\<lambda>x. sip_dispatch_rule_id x \<notin> sip_dispatch_rule_id ` set (r # ds)) (rules w)"
        unfolding ds(2) by (auto simp: w1_def intro: filter_cong)
      with ds(1,3) \<open>linked ttd r\<close> have "set (r # ds) \<subseteq> set (filter (linked ttd) (r # rs)) \<and>
        rules w' = filter (\<lambda>x. sip_dispatch_rule_id x \<notin> sip_dispatch_rule_id ` set (r # ds)) (rules w) \<and>
        (\<not> isl res \<longrightarrow> r # ds = filter (linked ttd) (r # rs))"
        by auto
      then show ?thesis by blast
    qed
  qed
qed

lemma delete_trunks_log:
  "delete_trunks ids w = (res, w') \<Longrightarrow>
     calls w' = calls w @ attempt (faults w) (length (calls w)) (map DeleteSIPTrunk ids)
     \<and> isl res = (\<not> list_all snd (attempt (faults w) (length (calls w)) (map DeleteSIPTrunk ids)))
     \<and> faults w' = faults w \<and> rules w' = rules w \<and> fresh_ids w' = fresh_ids w
     \<and> issued w' = issued w \<and> client_ok w' = client_ok w \<and> opened w' = opened w"
proof (induction ids arbitrary: w)
  case Nil
  then show ?case by auto
next
  case (Cons i ids)
  show ?case
  proof (cases "faults w (length (calls w))")
    case True
    with Cons.prems show ?thesis
      by (auto simp: delete_sip_trunk_def issue_def)
  next
    case False
    define w1 where "w1 = w\<lparr>calls := calls w @ [(DeleteSIPTrunk i, True)],
        trunks := filter (\<lambda>x. sip_trunk_id x \<noteq> i) (trunks w)\<rparr>"
    from False Cons.prems have "delete_trunks ids w1 = (res, w')"
      by (simp add: delete_sip_trunk_def issue_def w1_def)
    from Cons.IH[OF this] False show ?thesis
      by (simp add: w1_def)
  qed
qed

lemma delete_trunks_store:
  "delete_trunks ids w = (res, w') \<Longrightarrow>
     \<exists>ds. set ds \<subseteq> set ids
       \<and> trunks w' = filter (\<lambda>t. sip_trunk_id t \<notin> set ds) (trunks w)
       \<and> (\<not> isl res \<longrightarrow> ds = ids)"
proof (induction ids arbitrary: w)
  case Nil
  then have "set [] \<subseteq> set ([]::string list) \<and>
      trunks w' = filter (\<lambda>t. sip_trunk_id t \<notin> set []) (trunks w) \<and>
      (\<not> isl res \<longrightarrow> [] = ([]::string list))"
    by auto
  then show ?case by blast
next
  case (Cons i ids)
  show ?case
  proof (cases "faults w (length (calls w))")
    case True
    with Cons.prems have "trunks w' = trunks w" "isl res"
      by (auto simp: delete_sip_trunk_def issue_def)
    then have "set [] \<subseteq> set (i # ids) \<and>
      trunks w' = filter (\<lambda>t. sip_trunk_id t \<notin> set []) (trunks w) \<and>
      (\<not> isl res \<longrightarrow> [] = i # ids)"
      by simp
    then show ?thesis by blast
  next
    case False
    define w1 where "w1 = w\<lparr>calls := calls w @ [(DeleteSIPTrunk i, True)],
        trunks := filter (\<lambda>x. sip_trunk_id x \<noteq> i) (trunks w)\<rparr>"
    from False Cons.prems have "delete_trunks ids w1 = (res, w')"
      by (simp add: delete_sip_trunk_def issue_def w1_def)
    from Cons.IH[OF this] obtain ds where ds:
      "set ds \<subseteq> set ids"
      "trunks w' = filter (\<lambda>t. sip_trunk_id t \<notin> set ds) (trunks w1)"
      "\<not> isl res \<longrightarrow> ds = ids"
      by blast
    have "trunks w' = filter (\<lambda>t. sip_trunk_id t \<notin> set (i # ds)) (trunks w)"
      unfolding ds(2) by (auto simp: w1_def intro: filter_cong)
    with ds(1,3) have "set (i # ds) \<subseteq> set (i # ids) \<and>
      trunks w' = filter (\<lambda>t. sip_trunk_id t \<notin> set (i # ds)) (trunks w) \<and>
      (\<not> isl res \<longrightarrow> i # ds = i # ids)"
      by auto
    then show ?thesis by blast
  qed
qed

section \<open>The cleanup branch\<close>

lemma linked_Nil [simp]: "linked [] r = False"
  by (simp add: linked_def)

lemma attempt_ok_length:
  "list_all snd (attempt f n p) \<Longrightarrow> length (attempt f n p) = length p"
  by (induction p arbitrary: n) (auto split: if_splits)

lemma resolve_conflicts_log:
  assumes "resolve_conflicts ttd w = (res, w')"
  shows "calls w' = calls w @ attempt (faults w) (length (calls w)) (cleanup_plan ttd (rules w))
     \<and> isl res = (\<not> list_all snd (attempt (faults w) (length (calls w)) (cleanup_plan ttd (rules w))))
     \<and> faults w' = faults w \<and> fresh_ids w' = fresh_ids w
     \<and> issued w' = issued w \<and> client_ok w' = client_ok w \<and> opened w' = opened w"
proof (cases "ttd = []")
  case True
  with assms show ?thesis by (auto simp: resolve_conflicts_def cleanup_plan_def)
next
  case ne: False
  show ?thesis
  proof (cases "faults w (length (calls w))")
    case True
    with ne assms show ?thesis
      by (auto simp: resolve_conflicts_def cleanup_plan_def list_sip_dispatch_rule_def issue_def)
  next
    case False
    define w1 where "w1 = w\<lparr>calls := calls w @ [(ListSIPDispatchRule, True)]\<rparr>"
    obtain r2 w2 where d: "delete_linked_rules ttd (rules w) w1 = (r2, w2)"
      by (cases "delete_linked_rules ttd (rules w) w1")
    note l2 = delete_linked_rules_log[OF d]
    from False ne assms d have res:
      "(res, w') = (case r2 of Inl e \<Rightarrow> (Inl e, w2) | Inr _ \<Rightarrow> delete_trunks ttd w2)"
      by (simp add: resolve_conflicts_def list_sip_dispatch_rule_def issue_def w1_def)
    show ?thesis
    proof (cases r2)
      case (Inl e)
      with res l2 False ne show ?thesis
        by (simp add: cleanup_plan_def rule_deletions_def attempt_append w1_def)
    next
      case (Inr u)
      with res have t: "delete_trunks ttd w2 = (res, w')" by simp
      note l3 = delete_trunks_log[OF t]
      from Inr l2 have ok: "list_all snd (attempt (faults w) (Suc (length (calls w)))
          (map (\<lambda>r. DeleteSIPDispatchRule (sip_dispatch_rule_id r)) (filter (linked ttd) (rules w))))"
        by (simp add: w1_def)
      from l3 l2 ok False ne show ?thesis
        by (simp add: cleanup_plan_def rule_deletions_def attempt_append w1_def attempt_ok_length)
    qed
  qed
qed

lemma resolve_conflicts_store:
  assumes "resolve_conflicts ttd w = (res, w')"
  shows "\<exists>dr dt. set dr \<subseteq> set (filter (linked ttd) (rules w)) \<and> set dt \<subseteq> set ttd
     \<and> rules w' = filter (\<lambda>r. sip_dispatch_rule_id r \<notin> sip_dispatch_rule_id ` set dr) (rules w)
     \<and> trunks w' = filter (\<lambda>t. sip_trunk_id t \<notin> set dt) (trunks w)
     \<and> (\<not> isl res \<longrightarrow> dr = filter (linked ttd) (rules w) \<and> dt = ttd)"
proof -
  let ?P = "\<lambda>dr dt. set dr \<subseteq> set (filter (linked ttd) (rules w)) \<and> set dt \<subseteq> set ttd
     \<and> rules w' = filter (\<lambda>r. sip_dispatch_rule_id r \<notin> sip_dispatch_rule_id ` set dr) (rules w)
     \<and> trunks w' = filter (\<lambda>t. sip_trunk_id t \<notin> set dt) (trunks w)
     \<and> (\<not> isl res \<longrightarrow> dr = filter (linked ttd) (rules w) \<and> dt = ttd)"
  show ?thesis
  proof (cases "ttd = [] \<or> faults w (length (calls w))")
    case True
    with assms have "?P [] []"
      by (auto simp: resolve_conflicts_def list_sip_dispatch_rule_def issue_def split: if_splits)
    then show ?thesis by blast
  next
    case False
    define w1 where "w1 = w\<lparr>calls := calls w @ [(ListSIPDispatchRule, True)]\<rparr>"
    obtain r2 w2 where d: "delete_linked_rules ttd (rules w) w1 = (r2, w2)"
      by (cases "delete_linked_rules ttd (rules w) w1")
    from delete_linked_rules_store[OF d] obtain dr where dr:
      "set dr \<subseteq> set (filter (linked ttd) (rules w))"
      "rules w2 = filter (\<lambda>r. sip_dispatch_rule_id r \<notin> sip_dispatch_rule_id ` set dr) (rules w)"
      "\<not> isl r2 \<longrightarrow> dr = filter (linked ttd) (rules w)"
      by (auto simp: w1_def)
    from delete_linked_rules_log[OF d] have tr2: "trunks w2 = trunks w"
      by (simp add: w1_def)
    from False assms d have res:
      "(res, w') = (case r2 of Inl e \<Rightarrow> (Inl e, w2) | Inr _ \<Rightarrow> delete_trunks ttd w2)"
      by (simp add: resolve_conflicts_def list_sip_dispatch_rule_def issue_def w1_def)
    show ?thesis
    proof (cases r2)
      case (Inl e)
      with res dr tr2 have "?P dr []" by simp
      then show ?thesis by blast
    next
      case (Inr u)
      with res have t: "delete_trunks ttd w2 = (res, w')" by simp
      from delete_trunks_store[OF t] obtain dt where dt:
        "set dt \<subseteq> set ttd" "trunks w' = filter (\<lambda>t. sip_trunk_id t \<notin> set dt) (trunks w2)"
        "\<not> isl res \<longrightarrow> dt = ttd"
        by blast
      from delete_trunks_log[OF t] have "rules w' = rules w2" by simp
      with dt dr tr2 Inr have "?P dr dt" by simp
      then show ?thesis by blast
    qed
  qed
qed

section \<open>The body of the try statement\<close>

lemma list_sip_inbound_trunk_eq:
  "list_sip_inbound_trunk w =
     (if faults w (length (calls w))
      then (Inl (RemoteError ListSIPInboundTrunk), w\<lparr>calls := calls w @ [(ListSIPInboundTrunk, False)]\<rparr>)
      else (Inr (trunks w), w\<lparr>calls := calls w @ [(ListSIPInboundTrunk, True)]\<rparr>))"
  by (simp add: list_sip_inbound_trunk_def issue_def)

lemma create_sip_inbound_trunk_eq:
  "create_sip_inbound_trunk info w =
     (if faults w (length (calls w))
      then (Inl (RemoteError (CreateSIPInboundTrunk info)),
            w\<lparr>calls := calls w @ [(CreateSIPInboundTrunk info, False)]\<rparr>)
      else (Inr (info\<lparr>sip_trunk_id := fresh_ids w (issued w)\<rparr>),
            w\<lparr>calls := calls w @ [(CreateSIPInboundTrunk info, True)],
              trunks := trunks w @ [info\<lparr>sip_trunk_id := fresh_ids w (issued w)\<rparr>],
              issued := Suc (issued w)\<rparr>))"
  by (simp add: create_sip_inbound_trunk_def issue_def Let_def)

lemma create_sip_dispatch_rule_eq:
  "create_sip_dispatch_rule info w =
     (if faults w (length (calls w))
      then (Inl (RemoteError (CreateSIPDispatchRule info)),
            w\<lparr>calls := calls w @ [(CreateSIPDispatchRule info, False)]\<rparr>)
      else (Inr (info\<lparr>sip_dispatch_rule_id := fresh_ids w (issued w)\<rparr>),
            w\<lparr>calls := calls w @ [(CreateSIPDispatchRule info, True)],
              rules := rules w @ [info\<lparr>sip_dispatch_rule_id := fresh_ids w (issued w)\<rparr>],
              issued := Suc (issued w)\<rparr>))"
  by (simp add: create_sip_dispatch_rule_def issue_def Let_def)

lemma try_body_unfold:
  "try_body number endpoint w =
     (case list_sip_inbound_trunk w of
        (Inl e, w1) \<Rightarrow> (Inl e, w1)
      | (Inr items, w1) \<Rightarrow>
          (case resolve_conflicts (find_conflicts number items []) w1 of
             (Inl e, w2) \<Rightarrow> (Inl e, w2)
           | (Inr _, w2) \<Rightarrow> create_pair number endpoint w2))"
  by (simp add: try_body_def create_pair_def Let_def split: prod.splits sum.splits)

lemma create_pair_log:
  assumes "create_pair number endpoint w = (res, w')"
  shows "calls w' = calls w @ attempt (faults w) (length (calls w))
            [CreateSIPInboundTrunk (new_trunk number),
             CreateSIPDispatchRule (new_dispatch_rule (fresh_ids w (issued w)))]
     \<and> isl res = (\<not> list_all snd (attempt (faults w) (length (calls w))
            [CreateSIPInboundTrunk (new_trunk number),
             CreateSIPDispatchRule (new_dispatch_rule (fresh_ids w (issued w)))]))
     \<and> faults w' = faults w \<and> fresh_ids w' = fresh_ids w
     \<and> client_ok w' = client_ok w \<and> opened w' = opened w"
  using assms
  by (auto simp: create_pair_def create_sip_inbound_trunk_eq create_sip_dispatch_rule_eq Let_def
      split: if_splits)

lemma create_pair_store:
  assumes "create_pair number endpoint w = (res, w')"
  shows "\<exists>ts rs. trunks w' = trunks w @ ts \<and> rules w' = rules w @ rs
     \<and> set ts \<subseteq> {stored_trunk number w} \<and> set rs \<subseteq> {stored_rule w}
     \<and> (\<not> isl res \<longrightarrow> ts = [stored_trunk number w] \<and> rs = [stored_rule w]
           \<and> issued w' = Suc (Suc (issued w))
           \<and> res = Inr \<lparr>inbound_trunk = fresh_ids w (issued w),
                         dispatch_rule = fresh_ids w (Suc (issued w)),
                         primary_uri = endpoint\<rparr>)"
proof -
  let ?P = "\<lambda>ts rs. trunks w' = trunks w @ ts \<and> rules w' = rules w @ rs
     \<and> set ts \<subseteq> {stored_trunk number w} \<and> set rs \<subseteq> {stored_rule w}
     \<and> (\<not> isl res \<longrightarrow> ts = [stored_trunk number w] \<and> rs = [stored_rule w]
           \<and> issued w' = Suc (Suc (issued w))
           \<and> res = Inr \<lparr>inbound_trunk = fresh_ids w (issued w),
                         dispatch_rule = fresh_ids w (Suc (issued w)),
                         primary_uri = endpoint\<rparr>)"
  show ?thesis
  proof (cases "faults w (length (calls w))")
    case True
    with assms have "?P [] []"
      by (auto simp: create_pair_def create_sip_inbound_trunk_eq)
    then show ?thesis by blast
  next
    case f1: False
    show ?thesis
    proof (cases "faults w (Suc (length (calls w)))")
      case True
      with f1 assms have "?P [stored_trunk number w] []"
        by (auto simp: create_pair_def create_sip_inbound_trunk_eq create_sip_dispatch_rule_eq
            stored_trunk_def Let_def)
      then show ?thesis by blast
    next
      case False
      with f1 assms have "?P [stored_trunk number w] [stored_rule w]"
        by (auto simp: create_pair_def create_sip_inbound_trunk_eq create_sip_dispatch_rule_eq
            stored_trunk_def stored_rule_def Let_def)
      then show ?thesis by blast
    qed
  qed
qed

lemma try_body_log:
  assumes "try_body number endpoint w = (res, w')"
  shows "calls w' = calls w @ attempt (faults w) (length (calls w)) (body_plan number w)
     \<and> isl res = (\<not> list_all snd (attempt (faults w) (length (calls w)) (body_plan number w)))
     \<and> faults w' = faults w \<and> fresh_ids w' = fresh_ids w
     \<and> client_ok w' = client_ok w \<and> opened w' = opened w"
proof (cases "faults w (length (calls w))")
  case True
  with assms show ?thesis
    by (auto simp: try_body_unfold list_sip_inbound_trunk_eq body_plan_def)
next
  case False
  define w1 where "w1 = w\<lparr>calls := calls w @ [(ListSIPInboundTrunk, True)]\<rparr>"
  define C where "C = find_conflicts number (trunks w) []"
  obtain r2 w2 where rc: "resolve_conflicts C w1 = (r2, w2)"
    by (cases "resolve_conflicts C w1")
  note l2 = resolve_conflicts_log[OF rc]
  from False assms rc have res:
    "(res, w') = (case r2 of Inl e \<Rightarrow> (Inl e, w2) | Inr _ \<Rightarrow> create_pair number endpoint w2)"
    by (simp add: try_body_unfold list_sip_inbound_trunk_eq w1_def C_def)
  show ?thesis
  proof (cases r2)
    case (Inl e)
    with res l2 False show ?thesis
      by (simp add: body_plan_def attempt_append w1_def C_def)
  next
    case (Inr u)
    with res have cp: "create_pair number endpoint w2 = (res, w')" by simp
    note l3 = create_pair_log[OF cp]
    from Inr l2 have ok: "list_all snd (attempt (faults w) (Suc (length (calls w)))
        (cleanup_plan C (rules w)))"
      by (simp add: w1_def)
    from l3 l2 ok False show ?thesis
      by (simp add: body_plan_def attempt_append w1_def C_def attempt_ok_length)
  qed
qed

lemma stored_frame:
  "fresh_ids w2 = fresh_ids w \<Longrightarrow> issued w2 = issued w \<Longrightarrow>
     stored_trunk number w2 = stored_trunk number w \<and> stored_rule w2 = stored_rule w"
  by (simp add: stored_trunk_def stored_rule_def)

lemma try_body_store:
  assumes "try_body number endpoint w = (res, w')"
  shows "\<exists>dr dt ts rs.
       set dr \<subseteq> set (filter (linked (find_conflicts number (trunks w) [])) (rules w))
     \<and> set dt \<subseteq> set (find_conflicts number (trunks w) [])
     \<and> set ts \<subseteq> {stored_trunk number w} \<and> set rs \<subseteq> {stored_rule w}
     \<and> trunks w' = filter (\<lambda>t. sip_trunk_id t \<notin> set dt) (trunks w) @ ts
     \<and> rules w' = filter (\<lambda>r. sip_dispatch_rule_id r \<notin> sip_dispatch_rule_id ` set dr) (rules w) @ rs
     \<and> (\<not> isl res \<longrightarrow>
           dr = filter (linked (find_conflicts number (trunks w) [])) (rules w)
         \<and> dt = find_conflicts number (trunks w) []
         \<and> ts = [stored_trunk number w] \<and> rs = [stored_rule w]
         \<and> issued w' = Suc (Suc (issued w))
         \<and> res = Inr \<lparr>inbound_trunk = fresh_ids w (issued w),
                       dispatch_rule = fresh_ids w (Suc (issued w)),
                       primary_uri = endpoint\<rparr>)"
proof -
  define C where "C = find_conflicts number (trunks w) []"
  let ?P = "\<lambda>dr dt ts rs.
       set dr \<subseteq> set (filter (linked C) (rules w))
     \<and> set dt \<subseteq> set C
     \<and> set ts \<subseteq> {stored_trunk number w} \<and> set rs \<subseteq> {stored_rule w}
     \<and> trunks w' = filter (\<lambda>t. sip_trunk_id t \<notin> set dt) (trunks w) @ ts
     \<and> rules w' = filter (\<lambda>r. sip_dispatch_rule_id r \<notin> sip_dispatch_rule_id ` set dr) (rules w) @ rs
     \<and> (\<not> isl res \<longrightarrow>
           dr = filter (linked C) (rules w) \<and> dt = C
         \<and> ts = [stored_trunk number w] \<and> rs = [stored_rule w]
         \<and> issued w' = Suc (Suc (issued w))
         \<and> res = Inr \<lparr>inbound_trunk = fresh_ids w (issued w),
                       dispatch_rule = fresh_ids w (Suc (issued w)),
                       primary_uri = endpoint\<rparr>)"
  have "\<exists>dr dt ts rs. ?P dr dt ts rs"
  proof (cases "faults w (length (calls w))")
    case True
    with assms have "?P [] [] [] []"
      by (auto simp: try_body_unfold list_sip_inbound_trunk_eq)
    then show ?thesis by blast
  next
    case False
    define w1 where "w1 = w\<lparr>calls := calls w @ [(ListSIPInboundTrunk, True)]\<rparr>"
    obtain r2 w2 where rc: "resolve_conflicts C w1 = (r2, w2)"
      by (cases "resolve_conflicts C w1")
    from resolve_conflicts_store[OF rc] obtain dr dt where d:
      "set dr \<subseteq> set (filter (linked C) (rules w))" "set dt \<subseteq> set C"
      "rules w2 = filter (\<lambda>r. sip_dispatch_rule_id r \<notin> sip_dispatch_rule_id ` set dr) (rules w)"
      "trunks w2 = filter (\<lambda>t. sip_trunk_id t \<notin> set dt) (trunks w)"
      "\<not> isl r2 \<longrightarrow> dr = filter (linked C) (rules w) \<and> dt = C"
      by (auto simp: w1_def)
    from resolve_conflicts_log[OF rc] have fr: "fresh_ids w2 = fresh_ids w" "issued w2 = issued w"
      by (simp_all add: w1_def)
    note st = stored_frame[OF fr, of number]
    from False assms rc have res:
      "(res, w') = (case r2 of Inl e \<Rightarrow> (Inl e, w2) | Inr _ \<Rightarrow> create_pair number endpoint w2)"
      by (simp add: try_body_unfold list_sip_inbound_trunk_eq w1_def C_def)
    show ?thesis
    proof (cases r2)
      case (Inl e)
      with res d have "?P dr dt [] []" by simp
      then show ?thesis by blast
    next
      case (Inr u)
      with res have cp: "create_pair number endpoint w2 = (res, w')" by simp
      from create_pair_store[OF cp] obtain ts rs where c0:
        "trunks w' = trunks w2 @ ts" "rules w' = rules w2 @ rs"
        "set ts \<subseteq> {stored_trunk number w2}" "set rs \<subseteq> {stored_rule w2}"
        "\<not> isl res \<longrightarrow> ts = [stored_trunk number w2] \<and> rs = [stored_rule w2]
           \<and> issued w' = Suc (Suc (issued w2))
           \<and> res = Inr \<lparr>inbound_trunk = fresh_ids w2 (issued w2),
                         dispatch_rule = fresh_ids w2 (Suc (issued w2)),
                         primary_uri = endpoint\<rparr>"
        by blast
      have c:
        "trunks w' = trunks w2 @ ts" "rules w' = rules w2 @ rs"
        "set ts \<subseteq> {stored_trunk number w}" "set rs \<subseteq> {stored_rule w}"
        "\<not> isl res \<longrightarrow> ts = [stored_trunk number w] \<and> rs = [stored_rule w]
           \<and> issued w' = Suc (Suc (issued w))
           \<and> res = Inr \<lparr>inbound_trunk = fresh_ids w (issued w),
                         dispatch_rule = fresh_ids w (Suc (issued w)),
                         primary_uri = endpoint\<rparr>"
        using c0 st fr by simp_all
      from c d Inr have "?P dr dt ts rs" by simp
      then show ?thesis by blast
    qed
  qed
  then show ?thesis unfolding C_def .
qed

section \<open>The try statement and main\<close>

lemma aclose_eq:
  "aclose w =
     (if faults w (length (calls w))
      then (Inl (RemoteError AClose), w\<lparr>calls := calls w @ [(AClose, False)]\<rparr>)
      else (Inr (), w\<lparr>calls := calls w @ [(AClose, True)]\<rparr>))"
  by (simp add: aclose_def issue_def)

lemma try_finally_eq:
  "try_body number endpoint w = (r1, w1) \<Longrightarrow>
   try_finally number endpoint w =
     (if faults w1 (length (calls w1))
      then (Inl (RemoteError AClose), w1\<lparr>calls := calls w1 @ [(AClose, False)]\<rparr>)
      else (r1, w1\<lparr>calls := calls w1 @ [(AClose, True)]\<rparr>))"
  by (simp add: try_finally_def aclose_eq)

lemma try_finally_log:
  assumes "try_finally number endpoint w = (res, w')"
  shows "calls w' = calls w @ attempt (faults w) (length (calls w)) (body_plan number w)
            @ [(AClose, \<not> faults w (length (calls w)
                  + length (attempt (faults w) (length (calls w)) (body_plan number w))))]
     \<and> isl res = (\<not> list_all snd (attempt (faults w) (length (calls w)) (body_plan number w))
          \<or> faults w (length (calls w)
                  + length (attempt (faults w) (length (calls w)) (body_plan number w))))
     \<and> opened w' = opened w"
proof -
  obtain r1 w1 where b: "try_body number endpoint w = (r1, w1)"
    by (cases "try_body number endpoint w")
  note l = try_body_log[OF b]
  show ?thesis
  proof (cases "faults w1 (length (calls w1))")
    case True
    with assms l show ?thesis by (auto simp: try_finally_eq[OF b])
  next
    case False
    with assms l show ?thesis by (auto simp: try_finally_eq[OF b])
  qed
qed

lemma try_finally_store:
  assumes "try_finally number endpoint w = (res, w')"
  shows "\<exists>r1 w1. try_body number endpoint w = (r1, w1) \<and> trunks w' = trunks w1
      \<and> rules w' = rules w1 \<and> issued w' = issued w1 \<and> (\<not> isl res \<longrightarrow> r1 = res)"
proof -
  obtain r1 w1 where b: "try_body number endpoint w = (r1, w1)"
    by (cases "try_body number endpoint w")
  show ?thesis
  proof (cases "faults w1 (length (calls w1))")
    case True
    with assms b show ?thesis by (auto simp: try_finally_eq[OF b])
  next
    case False
    with assms b show ?thesis by (auto simp: try_finally_eq[OF b])
  qed
qed


lemma main_no_client:
  "\<not> client_ok w \<Longrightarrow> main env w = (Inl ClientError, w)"
  by (simp add: main_def LiveKitAPI_def)

lemma main_no_url:
  "client_ok w \<Longrightarrow> LIVEKIT_URL env = None \<Longrightarrow>
     main env w = (Inl AttributeError, w\<lparr>opened := Suc (opened w)\<rparr>)"
  by (simp add: main_def LiveKitAPI_def project_id_def)

lemma main_enters_try:
  "client_ok w \<Longrightarrow> LIVEKIT_URL env = Some u \<Longrightarrow>
     \<exists>endpoint. main env w =
        try_finally (VOBIZ_INBOUND_NUMBER env) endpoint (w\<lparr>opened := Suc (opened w)\<rparr>)"
  by (simp add: main_def LiveKitAPI_def project_id_def) (rule exI, rule refl)

lemma body_plan_opened [simp]:
  "body_plan number (w\<lparr>opened := k\<rparr>) = body_plan number w"
  by (simp add: body_plan_def)

lemma stored_opened [simp]:
  "stored_trunk number (w\<lparr>opened := k\<rparr>) = stored_trunk number w"
  "stored_rule (w\<lparr>opened := k\<rparr>) = stored_rule w"
  by (simp_all add: stored_trunk_def stored_rule_def)

text \<open>The log of a run that enters the \<open>try\<close> statement.\<close>

lemma trace_run:
  assumes "client_ok w" and "LIVEKIT_URL env \<noteq> None"
  shows "trace env w =
           attempt (faults w) (length (calls w)) (body_plan (VOBIZ_INBOUND_NUMBER env) w)
           @ [(AClose, \<not> faults w (length (calls w)
                + length (attempt (faults w) (length (calls w))
                    (body_plan (VOBIZ_INBOUND_NUMBER env) w))))]"
    and "isl (fst (main env w)) =
           (\<not> list_all snd (attempt (faults w) (length (calls w))
                (body_plan (VOBIZ_INBOUND_NUMBER env) w))
            \<or> faults w (length (calls w)
                + length (attempt (faults w) (length (calls w))
                    (body_plan (VOBIZ_INBOUND_NUMBER env) w))))"
    and "opened (snd (main env w)) = Suc (opened w)"
proof -
  from assms obtain u where u: "LIVEKIT_URL env = Some u" by auto
  from main_enters_try[OF assms(1) u] obtain endpoint where m:
    "main env w = try_finally (VOBIZ_INBOUND_NUMBER env) endpoint (w\<lparr>opened := Suc (opened w)\<rparr>)"
    by blast
  obtain res w' where r: "main env w = (res, w')" by (cases "main env w")
  with m have tf: "try_finally (VOBIZ_INBOUND_NUMBER env) endpoint (w\<lparr>opened := Suc (opened w)\<rparr>) = (res, w')"
    by simp
  note l = try_finally_log[OF tf]
  from l r show "trace env w =
           attempt (faults w) (length (calls w)) (body_plan (VOBIZ_INBOUND_NUMBER env) w)
           @ [(AClose, \<not> faults w (length (calls w)
                + length (attempt (faults w) (length (calls w))
                    (body_plan (VOBIZ_INBOUND_NUMBER env) w))))]"
    by (simp add: trace_def)
  from l r show "isl (fst (main env w)) =
           (\<not> list_all snd (attempt (faults w) (length (calls w))
                (body_plan (VOBIZ_INBOUND_NUMBER env) w))
            \<or> faults w (length (calls w)
                + length (attempt (faults w) (length (calls w))
                    (body_plan (VOBIZ_INBOUND_NUMBER env) w))))"
    by simp
  from l r show "opened (snd (main env w)) = Suc (opened w)" by simp
qed

lemma trace_none:
  assumes "\<not> client_ok w \<or> LIVEKIT_URL env = None"
  shows "trace env w = []" and "isl (fst (main env w))"
  using assms by (cases "client_ok w"; simp add: trace_def main_no_client main_no_url)+

lemma main_success:
  assumes "fst (main env w) = Inr s"
  shows "client_ok w" and "LIVEKIT_URL env \<noteq> None"
    and "trace env w = map (\<lambda>rq. (rq, True)) (body_plan (VOBIZ_INBOUND_NUMBER env) w @ [AClose])"
proof -
  from assms have ni: "\<not> isl (fst (main env w))" by simp
  with trace_none(2)[of w env] show c: "client_ok w" and u: "LIVEKIT_URL env \<noteq> None"
    by blast+
  from ni trace_run(2)[OF c u] have
    ok: "list_all snd (attempt (faults w) (length (calls w)) (body_plan (VOBIZ_INBOUND_NUMBER env) w))"
    and nf: "\<not> faults w (length (calls w)
                + length (attempt (faults w) (length (calls w))
                    (body_plan (VOBIZ_INBOUND_NUMBER env) w)))"
    by auto
  from trace_run(1)[OF c u] nf attempt_ok[OF ok]
  show "trace env w = map (\<lambda>rq. (rq, True)) (body_plan (VOBIZ_INBOUND_NUMBER env) w @ [AClose])"
    by simp
qed

text \<open>The remote store after any run, and after a run that returned.\<close>

lemma main_store:
  assumes "main env w = (res, w')"
  shows "\<exists>dr dt ts rs.
       set dr \<subseteq> set (filter (linked (find_conflicts (VOBIZ_INBOUND_NUMBER env) (trunks w) [])) (rules w))
     \<and> set dt \<subseteq> set (find_conflicts (VOBIZ_INBOUND_NUMBER env) (trunks w) [])
     \<and> set ts \<subseteq> {stored_trunk (VOBIZ_INBOUND_NUMBER env) w} \<and> set rs \<subseteq> {stored_rule w}
     \<and> trunks w' = filter (\<lambda>t. sip_trunk_id t \<notin> set dt) (trunks w) @ ts
     \<and> rules w' = filter (\<lambda>r. sip_dispatch_rule_id r \<notin> sip_dispatch_rule_id ` set dr) (rules w) @ rs
     \<and> (\<not> isl res \<longrightarrow>
           dr = filter (linked (find_conflicts (VOBIZ_INBOUND_NUMBER env) (trunks w) [])) (rules w)
         \<and> dt = find_conflicts (VOBIZ_INBOUND_NUMBER env) (trunks w) []
         \<and> ts = [stored_trunk (VOBIZ_INBOUND_NUMBER env) w] \<and> rs = [stored_rule w]
         \<and> issued w' = Suc (Suc (issued w))
         \<and> inbound_trunk (projr res) = fresh_ids w (issued w)
         \<and> dispatch_rule (projr res) = fresh_ids w (Suc (issued w)))"
proof (cases "client_ok w \<and> LIVEKIT_URL env \<noteq> None")
  case False
  with assms have "trunks w' = trunks w \<and> rules w' = rules w \<and> isl res"
    by (cases "client_ok w") (auto simp: main_no_client main_no_url)
  then have "set [] \<subseteq> set (filter (linked (find_conflicts (VOBIZ_INBOUND_NUMBER env) (trunks w) [])) (rules w))
     \<and> set [] \<subseteq> set (find_conflicts (VOBIZ_INBOUND_NUMBER env) (trunks w) [])
     \<and> set [] \<subseteq> {stored_trunk (VOBIZ_INBOUND_NUMBER env) w} \<and> set [] \<subseteq> {stored_rule w}
     \<and> trunks w' = filter (\<lambda>t. sip_trunk_id t \<notin> set []) (trunks w) @ []
     \<and> rules w' = filter (\<lambda>r. sip_dispatch_rule_id r \<notin> sip_dispatch_rule_id ` set []) (rules w) @ []
     \<and> (\<not> isl res \<longrightarrow>
           [] = filter (linked (find_conflicts (VOBIZ_INBOUND_NUMBER env) (trunks w) [])) (rules w)
         \<and> [] = find_conflicts (VOBIZ_INBOUND_NUMBER env) (trunks w) []
         \<and> [] = [stored_trunk (VOBIZ_INBOUND_NUMBER env) w] \<and> [] = [stored_rule w]
         \<and> issued w' = Suc (Suc (issued w))
         \<and> inbound_trunk (projr res) = fresh_ids w (issued w)
         \<and> dispatch_rule (projr res) = fresh_ids w (Suc (issued w)))"
    by simp
  then show ?thesis by blast
next
  case True
  then obtain u where c: "client_ok w" and u: "LIVEKIT_URL env = Some u" by auto
  from main_enters_try[OF c u] assms obtain endpoint where tf:
    "try_finally (VOBIZ_INBOUND_NUMBER env) endpoint (w\<lparr>opened := Suc (opened w)\<rparr>) = (res, w')"
    by auto
  from try_finally_store[OF tf] obtain r1 w1 where b:
    "try_body (VOBIZ_INBOUND_NUMBER env) endpoint (w\<lparr>opened := Suc (opened w)\<rparr>) = (r1, w1)"
    and e: "trunks w' = trunks w1" "rules w' = rules w1" "issued w' = issued w1"
      "\<not> isl res \<longrightarrow> r1 = res"
    by blast
  from try_body_store[OF b] obtain dr dt ts rs where f:
    "set dr \<subseteq> set (filter (linked (find_conflicts (VOBIZ_INBOUND_NUMBER env) (trunks w) [])) (rules w))"
    "set dt \<subseteq> set (find_conflicts (VOBIZ_INBOUND_NUMBER env) (trunks w) [])"
    "set ts \<subseteq> {stored_trunk (VOBIZ_INBOUND_NUMBER env) w}" "set rs \<subseteq> {stored_rule w}"
    "trunks w1 = filter (\<lambda>t. sip_trunk_id t \<notin> set dt) (trunks w) @ ts"
    "rules w1 = filter (\<lambda>r. sip_dispatch_rule_id r \<notin> sip_dispatch_rule_id ` set dr) (rules w) @ rs"
    "\<not> isl r1 \<longrightarrow>
           dr = filter (linked (find_conflicts (VOBIZ_INBOUND_NUMBER env) (trunks w) [])) (rules w)
         \<and> dt = find_conflicts (VOBIZ_INBOUND_NUMBER env) (trunks w) []
         \<and> ts = [stored_trunk (VOBIZ_INBOUND_NUMBER env) w] \<and> rs = [stored_rule w]
         \<and> issued w1 = Suc (Suc (issued w))
         \<and> r1 = Inr \<lparr>inbound_trunk = fresh_ids w (issued w),
                      dispatch_rule = fresh_ids w (Suc (issued w)),
                      primary_uri = endpoint\<rparr>"
    by (simp del: set_filter) blast
  show ?thesis
    apply (rule exI[of _ dr], rule exI[of _ dt], rule exI[of _ ts], rule exI[of _ rs])
    using f e by (cases "isl res") (simp_all del: set_filter)
qed

section \<open>Positions in the log\<close>

lemma attempt_split:
  "attempt f n p = xs @ e # ys \<Longrightarrow>
     \<exists>ps qs. p = ps @ fst e # qs \<and> xs = map (\<lambda>rq. (rq, True)) ps"
proof (induction p arbitrary: n xs)
  case Nil
  then show ?case by simp
next
  case (Cons a p)
  show ?case
  proof (cases xs)
    case Nil
    with Cons.prems have "fst e = a" by (auto split: if_splits)
    with Nil have "a # p = [] @ fst e # p \<and> xs = map (\<lambda>rq. (rq, True)) []" by simp
    then show ?thesis by blast
  next
    case (Cons x xs')
    with Cons.prems have nf: "\<not> f n" and x: "x = (a, True)"
      and rest: "attempt f (Suc n) p = xs' @ e # ys"
      by (auto split: if_splits)
    from Cons.IH[OF rest] obtain ps qs where "p = ps @ fst e # qs" "xs' = map (\<lambda>rq. (rq, True)) ps"
      by blast
    with Cons x have "a # p = (a # ps) @ fst e # qs \<and> xs = map (\<lambda>rq. (rq, True)) (a # ps)"
      by simp
    then show ?thesis by blast
  qed
qed

lemma attempt_requests: "set (map fst (attempt f n p)) \<subseteq> set p"
  by (induction p arbitrary: n) auto

lemma attempt_failed_last:
  "(rq, False) \<in> set (attempt f n p) \<Longrightarrow>
     \<exists>ps qs. p = ps @ rq # qs \<and> attempt f n p = map (\<lambda>rq. (rq, True)) ps @ [(rq, False)]"
proof -
  assume a: "(rq, False) \<in> set (attempt f n p)"
  then have "\<not> list_all snd (attempt f n p)"
    by (auto simp: list_all_iff intro!: bexI[of _ "(rq, False)"])
  from attempt_fail[OF this] obtain xs r ys where
    p: "p = xs @ r # ys" and t: "attempt f n p = map (\<lambda>rq. (rq, True)) xs @ [(r, False)]"
    by blast
  from a t have "r = rq" by auto
  with p t show ?thesis by blast
qed

lemma attempt_no_fault:
  "\<forall>k. \<not> f k \<Longrightarrow> attempt f n p = map (\<lambda>rq. (rq, True)) p"
  by (induction p arbitrary: n) auto

text \<open>An element outside the first part of a list lies behind all of it.\<close>

lemma behind_prefix:
  assumes "ps @ x # qs = A @ B" and "x \<notin> set A"
  shows "\<exists>us. ps = A @ us"
proof -
  from assms(1) consider us where "ps = A @ us" | us where "A = ps @ us" "us @ B = x # qs"
    by (auto simp: append_eq_append_conv2)
  then show ?thesis
  proof cases
    case 1
    then show ?thesis by blast
  next
    case 2
    show ?thesis
    proof (cases us)
      case Nil
      with 2 show ?thesis by simp
    next
      case (Cons u us')
      with 2 have "x \<in> set A" by auto
      with assms(2) show ?thesis by simp
    qed
  qed
qed

text \<open>An element outside the second part of a list lies inside the first.\<close>

lemma inside_prefix:
  assumes "ps @ x # qs = A @ B" and "x \<notin> set B"
  shows "\<exists>vs. A = ps @ x # vs"
proof -
  from assms(1) consider us where "ps = A @ us" "B = us @ x # qs" | us where "A = ps @ us" "us @ B = x # qs"
    by (auto simp: append_eq_append_conv2)
  then show ?thesis
  proof cases
    case 1
    with assms(2) show ?thesis by simp
  next
    case 2
    show ?thesis
    proof (cases us)
      case Nil
      with 2 assms(2) show ?thesis by auto
    next
      case (Cons u us')
      with 2 show ?thesis by auto
    qed
  qed
qed

lemma body_plan_split:
  "body_plan number w =
     (ListSIPInboundTrunk # cleanup_plan (find_conflicts number (trunks w) []) (rules w))
     @ [CreateSIPInboundTrunk (new_trunk number),
        CreateSIPDispatchRule (new_dispatch_rule (fresh_ids w (issued w)))]"
  by (simp add: body_plan_def)

lemma cleanup_plan_no_creation:
  "rq \<in> set (ListSIPInboundTrunk # cleanup_plan C rs) \<Longrightarrow> \<not> is_creation rq"
  by (auto simp: cleanup_plan_def rule_deletions_def)

lemma body_plan_no_close: "AClose \<notin> set (body_plan number w)"
  by (auto simp: body_plan_def cleanup_plan_def rule_deletions_def)

text \<open>
  Within the \<open>try\<close> statement: the client is released exactly once, by the last
  request of the run, whatever the body did.
\<close>

lemma released_after_try:
  assumes "client_ok w" and "LIVEKIT_URL env \<noteq> None"
  shows "\<exists>xs ok. trace env w = xs @ [(AClose, ok)] \<and> AClose \<notin> fst ` set xs"
proof -
  let ?tb = "attempt (faults w) (length (calls w)) (body_plan (VOBIZ_INBOUND_NUMBER env) w)"
  from attempt_requests[of "faults w" "length (calls w)" "body_plan (VOBIZ_INBOUND_NUMBER env) w"]
    body_plan_no_close[of "VOBIZ_INBOUND_NUMBER env" w]
  have "AClose \<notin> fst ` set ?tb" by auto
  with trace_run(1)[OF assms] show ?thesis by blast
qed

lemma attempt_prefix: "prefix (map fst (attempt f n p)) p"
  by (induction p arbitrary: n) auto

lemma filter_prefix_length:
  "prefix xs p \<Longrightarrow> length (filter P xs) \<le> length (filter P p)"
  by (auto elim!: prefixE)

lemma body_plan_create_trunk:
  "filter is_create_trunk (body_plan number w) = [CreateSIPInboundTrunk (new_trunk number)]"
  by (simp add: body_plan_def cleanup_plan_def rule_deletions_def filter_map comp_def)

lemma body_plan_create_rule:
  "filter is_create_rule (body_plan number w) =
     [CreateSIPDispatchRule (new_dispatch_rule (fresh_ids w (issued w)))]"
  by (simp add: body_plan_def cleanup_plan_def rule_deletions_def filter_map comp_def)

section \<open>The store after a run\<close>


lemma main_no_fault:
  assumes "client_ok w" and "LIVEKIT_URL env \<noteq> None" and "\<forall>k. \<not> faults w k"
  shows "\<not> isl (fst (main env w))"
  using trace_run(2)[OF assms(1,2)] assms(3)
  by (simp add: attempt_no_fault list_all_iff)

text \<open>The store a run that returned leaves behind.\<close>

lemma main_success_store:
  assumes "main env w = (Inr s, w')"
  shows "trunks w' =
           filter (\<lambda>t. sip_trunk_id t \<notin> set (find_conflicts (VOBIZ_INBOUND_NUMBER env) (trunks w) []))
             (trunks w) @ [stored_trunk (VOBIZ_INBOUND_NUMBER env) w]"
    and "rules w' =
           filter (\<lambda>r. sip_dispatch_rule_id r \<notin> sip_dispatch_rule_id `
               set (filter (linked (find_conflicts (VOBIZ_INBOUND_NUMBER env) (trunks w) [])) (rules w)))
             (rules w) @ [stored_rule w]"
    and "issued w' = Suc (Suc (issued w))"
    and "inbound_trunk s = fresh_ids w (issued w)"
    and "dispatch_rule s = fresh_ids w (Suc (issued w))"
  using main_store[OF assms] by auto

lemma conflicts_set:
  "set (find_conflicts number ts []) = sip_trunk_id ` {t \<in> set ts. number \<in> set (numbers t)}"
  by (simp add: find_conflicts_acc)


lemma trace_requests:
  "set (map fst (trace env w)) \<subseteq> insert AClose (set (body_plan (VOBIZ_INBOUND_NUMBER env) w))"
proof (cases "client_ok w \<and> LIVEKIT_URL env \<noteq> None")
  case False
  with trace_none(1)[of w env] show ?thesis by auto
next
  case True
  with trace_run(1)[of w env]
    attempt_requests[of "faults w" "length (calls w)" "body_plan (VOBIZ_INBOUND_NUMBER env) w"]
  show ?thesis by auto
qed

lemma planned_trunk_deletion:
  "DeleteSIPTrunk x \<in> set (body_plan number w) \<Longrightarrow> x \<in> set (find_conflicts number (trunks w) [])"
  by (auto simp: body_plan_def cleanup_plan_def rule_deletions_def split: if_splits)

lemma planned_rule_deletion:
  "DeleteSIPDispatchRule x \<in> set (body_plan number w) \<Longrightarrow>
     x \<in> sip_dispatch_rule_id ` set (filter (linked (find_conflicts number (trunks w) [])) (rules w))"
  by (auto simp: body_plan_def cleanup_plan_def rule_deletions_def split: if_splits)

lemma linked_iff:
  "linked (find_conflicts number ts []) r =
     (\<exists>t\<in>set ts. number \<in> set (numbers t) \<and> sip_trunk_id t \<in> set (trunk_ids r))"
  by (auto simp: linked_def list_ex_iff conflicts_set)

lemma nonconflict_id:
  assumes "distinct (map sip_trunk_id ts)" and "t \<in> set ts" and "number \<notin> set (numbers t)"
  shows "sip_trunk_id t \<notin> set (find_conflicts number ts [])"
proof
  assume "sip_trunk_id t \<in> set (find_conflicts number ts [])"
  then obtain t' where t': "t' \<in> set ts" "number \<in> set (numbers t')" "sip_trunk_id t' = sip_trunk_id t"
    by (auto simp: conflicts_set)
  from assms(1) have "inj_on sip_trunk_id (set ts)" by (simp add: distinct_map)
  with t'(1,3) assms(2) have "t' = t" by (auto dest: inj_onD)
  with t'(2) assms(3) show False by simp
qed

lemma unlinked_id:
  assumes "distinct (map sip_dispatch_rule_id rs)" and "r \<in> set rs" and "\<not> linked C r"
  shows "sip_dispatch_rule_id r \<notin> sip_dispatch_rule_id ` set (filter (linked C) rs)"
proof
  assume "sip_dispatch_rule_id r \<in> sip_dispatch_rule_id ` set (filter (linked C) rs)"
  then obtain r' where r': "r' \<in> set rs" "linked C r'" "sip_dispatch_rule_id r' = sip_dispatch_rule_id r"
    by auto
  from assms(1) have "inj_on sip_dispatch_rule_id (set rs)" by (simp add: distinct_map)
  with r'(1,3) assms(2) have "r' = r" by (auto dest: inj_onD)
  with r'(2) assms(3) show False by simp
qed

section \<open>The example runs\<close>

lemmas example_defs =
  example_env_def unset_env_def example_ids_def old_trunk_def other_trunk_def old_rule_def
  mixed_rule_def other_rule_def example_world_def empty_world_def failing_world_def
  no_client_world_def

lemmas main_defs =
  trace_def main_def LiveKitAPI_def project_id_def LIVEKIT_URL_def VOBIZ_INBOUND_NUMBER_def
  AGENT_NAME_def sip_endpoint_def split_dot_first_def str_replace_def try_finally_def
  try_body_def resolve_conflicts_def list_sip_inbound_trunk_def list_sip_dispatch_rule_def
  delete_sip_dispatch_rule_def delete_sip_trunk_def create_sip_inbound_trunk_def
  create_sip_dispatch_rule_def aclose_def issue_def new_trunk_def new_dispatch_rule_def
  linked_def Let_def

text \<open>The log of scenario B, computed from the definitions.\<close>

lemma scenario_b_log: "trace example_env example_world =
  [(ListSIPInboundTrunk, True), (ListSIPDispatchRule, True),
   (DeleteSIPDispatchRule ''SDR_1'', True),
   (DeleteSIPDispatchRule ''SDR_2'', True), (DeleteSIPTrunk ''ST_1'', True),
   (CreateSIPInboundTrunk (new_trunk ''+912271264190''), True),
   (CreateSIPDispatchRule (new_dispatch_rule ''ST_a''), True),
   (AClose, True)]"
  by (simp add: main_defs example_defs)

text \<open>The log of scenario D, computed from the definitions.\<close>

lemma scenario_d_log: "trace example_env failing_world =
  [(ListSIPInboundTrunk, True), (ListSIPDispatchRule, True),
   (DeleteSIPDispatchRule ''SDR_1'', True),
   (DeleteSIPDispatchRule ''SDR_2'', False), (AClose, True)]"
  by (simp add: main_defs example_defs)

section \<open>The properties of the specification\<close>

subsection \<open>C1\<close>



subsection \<open>C2\<close>

text \<open>
  C2. Ordering: wherever the log of a run holds the deletion of a trunk, that trunk is one
  of the conflicting trunks, the rules have been listed, and every listed rule that names
  this trunk (indeed every rule linked to any conflicting trunk) has a deletion that
  returned strictly earlier in the log.
\<close>

theorem rules_deleted_before_trunks:
  assumes "trace env w = xs @ (DeleteSIPTrunk tid, ok) # ys"
  shows "tid \<in> set (find_conflicts (VOBIZ_INBOUND_NUMBER env) (trunks w) [])
       \<and> (ListSIPDispatchRule, True) \<in> set xs
       \<and> (\<forall>r\<in>set (rules w). tid \<in> set (trunk_ids r) \<longrightarrow>
             (DeleteSIPDispatchRule (sip_dispatch_rule_id r), True) \<in> set xs)
       \<and> (\<forall>r\<in>set (rules w). linked (find_conflicts (VOBIZ_INBOUND_NUMBER env) (trunks w) []) r \<longrightarrow>
             (DeleteSIPDispatchRule (sip_dispatch_rule_id r), True) \<in> set xs)"
proof -
  let ?N = "VOBIZ_INBOUND_NUMBER env"
  let ?C = "find_conflicts ?N (trunks w) []"
  let ?tb = "attempt (faults w) (length (calls w)) (body_plan ?N w)"
  let ?A = "ListSIPInboundTrunk # ListSIPDispatchRule # rule_deletions ?C (rules w)"
  let ?B = "map DeleteSIPTrunk ?C @ [CreateSIPInboundTrunk (new_trunk ?N),
        CreateSIPDispatchRule (new_dispatch_rule (fresh_ids w (issued w)))]"
  from assms have ne: "trace env w \<noteq> []" by auto
  with trace_none(1)[of w env] have c: "client_ok w" and u: "LIVEKIT_URL env \<noteq> None"
    by blast+
  note tr = trace_run(1)[OF c u]
  from assms tr obtain ys' where tb: "?tb = xs @ (DeleteSIPTrunk tid, ok) # ys'"
    by (cases ys rule: rev_cases) auto
  from attempt_split[OF tb] obtain ps qs where
    p: "body_plan ?N w = ps @ DeleteSIPTrunk tid # qs" and x: "xs = map (\<lambda>rq. (rq, True)) ps"
    by auto
  then have "DeleteSIPTrunk tid \<in> set (body_plan ?N w)" by simp
  then have tid: "tid \<in> set ?C"
    by (auto simp: body_plan_def cleanup_plan_def rule_deletions_def split: if_splits)
  then have "?C \<noteq> []" by auto
  then have plan: "body_plan ?N w = ?A @ ?B"
    by (simp add: body_plan_def cleanup_plan_def)
  have notin: "DeleteSIPTrunk tid \<notin> set ?A" by (auto simp: rule_deletions_def)
  from p have eq: "ps @ DeleteSIPTrunk tid # qs = ?A @ ?B" unfolding plan by simp
  from behind_prefix[OF eq notin] obtain us where "ps = ?A @ us" by blast
  then have sub: "set ?A \<subseteq> set ps" by auto
  have lr: "(ListSIPDispatchRule, True) \<in> set xs" using sub x by auto
  have all: "\<forall>r\<in>set (rules w). linked ?C r \<longrightarrow>
             (DeleteSIPDispatchRule (sip_dispatch_rule_id r), True) \<in> set xs"
  proof (intro ballI impI)
    fix r assume "r \<in> set (rules w)" "linked ?C r"
    then have "DeleteSIPDispatchRule (sip_dispatch_rule_id r) \<in> set ?A"
      by (simp add: rule_deletions_def)
    with sub x show "(DeleteSIPDispatchRule (sip_dispatch_rule_id r), True) \<in> set xs"
      by auto
  qed
  have "\<forall>r\<in>set (rules w). tid \<in> set (trunk_ids r) \<longrightarrow> linked ?C r"
    using tid by (auto simp: linked_def list_ex_iff)
  with all tid lr show ?thesis by blast
qed

text \<open>
  In the example world the rule on both trunks is deleted before the conflicting trunk.
\<close>

theorem rules_deleted_before_trunks_witness:
  "trace example_env example_world =
     [(ListSIPInboundTrunk, True), (ListSIPDispatchRule, True),
      (DeleteSIPDispatchRule ''SDR_1'', True), (DeleteSIPDispatchRule ''SDR_2'', True)]
     @ (DeleteSIPTrunk ''ST_1'', True)
     # [(CreateSIPInboundTrunk (new_trunk ''+912271264190''), True),
        (CreateSIPDispatchRule (new_dispatch_rule ''ST_a''), True), (AClose, True)]
   \<and> mixed_rule \<in> set (rules example_world) \<and> ''ST_1'' \<in> set (trunk_ids mixed_rule)
   \<and> ''ST_1'' \<in> set (find_conflicts (VOBIZ_INBOUND_NUMBER example_env) (trunks example_world) [])
   \<and> (DeleteSIPDispatchRule (sip_dispatch_rule_id mixed_rule), True)
       \<in> set [(ListSIPInboundTrunk, True), (ListSIPDispatchRule, True),
               (DeleteSIPDispatchRule ''SDR_1'', True), (DeleteSIPDispatchRule ''SDR_2'', True)]"
proof -
  have h: "trace example_env example_world =
     [(ListSIPInboundTrunk, True), (ListSIPDispatchRule, True),
      (DeleteSIPDispatchRule ''SDR_1'', True), (DeleteSIPDispatchRule ''SDR_2'', True)]
     @ (DeleteSIPTrunk ''ST_1'', True)
     # [(CreateSIPInboundTrunk (new_trunk ''+912271264190''), True),
        (CreateSIPDispatchRule (new_dispatch_rule ''ST_a''), True), (AClose, True)]"
    by (simp add: main_defs example_defs)
  have m: "mixed_rule \<in> set (rules example_world)" "''ST_1'' \<in> set (trunk_ids mixed_rule)"
    by (simp_all add: example_defs)
  from rules_deleted_before_trunks[OF h] m h show ?thesis by blast
qed

subsection \<open>C3\<close>

text \<open>
  C3. Conflict discovery selects exactly the trunks whose numbers hold the target
  number: the identifiers collected from the listed trunks are, in the order of the
  list, those of the trunks whose \<open>numbers\<close> field contains the number, and no others.
\<close>

theorem find_conflicts_exact:
  "find_conflicts number items [] =
     map sip_trunk_id (filter (\<lambda>t. number \<in> set (numbers t)) items)"
  by (simp add: find_conflicts_acc)

subsection \<open>C4\<close>

text \<open>
  C4. No interference across numbers, on a remote service whose identifiers are unique:
  a trunk whose numbers do not hold the target number is never the subject of a deletion
  request and is still stored after the run, whatever requests raised; so is a dispatch
  rule that names only such trunks; and a run that returned has stored a new trunk whose
  only number is the target.
\<close>

theorem other_numbers_untouched:
  assumes "distinct (map sip_trunk_id (trunks w))"
    and "distinct (map sip_dispatch_rule_id (rules w))"
  shows "(\<forall>t\<in>set (trunks w). VOBIZ_INBOUND_NUMBER env \<notin> set (numbers t) \<longrightarrow>
            t \<in> set (trunks (snd (main env w)))
          \<and> (\<forall>ok. (DeleteSIPTrunk (sip_trunk_id t), ok) \<notin> set (trace env w)))
       \<and> (\<forall>r\<in>set (rules w).
            (\<forall>t\<in>set (trunks w). sip_trunk_id t \<in> set (trunk_ids r) \<longrightarrow>
                VOBIZ_INBOUND_NUMBER env \<notin> set (numbers t)) \<longrightarrow>
            r \<in> set (rules (snd (main env w)))
          \<and> (\<forall>ok. (DeleteSIPDispatchRule (sip_dispatch_rule_id r), ok) \<notin> set (trace env w)))
       \<and> (\<not> isl (fst (main env w)) \<longrightarrow>
            (\<exists>t\<in>set (trunks (snd (main env w))).
                numbers t = [VOBIZ_INBOUND_NUMBER env]
              \<and> sip_trunk_id t = fresh_ids w (issued w)))"
proof -
  let ?N = "VOBIZ_INBOUND_NUMBER env"
  let ?C = "find_conflicts ?N (trunks w) []"
  obtain res w' where m: "main env w = (res, w')" by (cases "main env w")
  from main_store[OF m] obtain dr dt ts rs where st:
    "set dr \<subseteq> set (filter (linked ?C) (rules w))" "set dt \<subseteq> set ?C"
    "trunks w' = filter (\<lambda>t. sip_trunk_id t \<notin> set dt) (trunks w) @ ts"
    "rules w' = filter (\<lambda>r. sip_dispatch_rule_id r \<notin> sip_dispatch_rule_id ` set dr) (rules w) @ rs"
    "\<not> isl res \<longrightarrow> ts = [stored_trunk ?N w]"
    by blast
  have 1: "\<forall>t\<in>set (trunks w). ?N \<notin> set (numbers t) \<longrightarrow>
            t \<in> set (trunks w') \<and> (\<forall>ok. (DeleteSIPTrunk (sip_trunk_id t), ok) \<notin> set (trace env w))"
  proof (intro ballI impI conjI allI)
    fix t assume t: "t \<in> set (trunks w)" "?N \<notin> set (numbers t)"
    note nc = nonconflict_id[OF assms(1) t]
    with st(2) have "sip_trunk_id t \<notin> set dt" by blast
    with t(1) show "t \<in> set (trunks w')" unfolding st(3) by simp
    fix ok
    show "(DeleteSIPTrunk (sip_trunk_id t), ok) \<notin> set (trace env w)"
    proof
      assume "(DeleteSIPTrunk (sip_trunk_id t), ok) \<in> set (trace env w)"
      then have "DeleteSIPTrunk (sip_trunk_id t) \<in> set (map fst (trace env w))" by force
      with trace_requests[of env w] have "DeleteSIPTrunk (sip_trunk_id t) \<in> set (body_plan ?N w)"
        by auto
      from planned_trunk_deletion[OF this] nc show False by simp
    qed
  qed
  have 2: "\<forall>r\<in>set (rules w).
            (\<forall>t\<in>set (trunks w). sip_trunk_id t \<in> set (trunk_ids r) \<longrightarrow> ?N \<notin> set (numbers t)) \<longrightarrow>
            r \<in> set (rules w')
          \<and> (\<forall>ok. (DeleteSIPDispatchRule (sip_dispatch_rule_id r), ok) \<notin> set (trace env w))"
  proof (intro ballI impI conjI allI)
    fix r assume r: "r \<in> set (rules w)"
      and only: "\<forall>t\<in>set (trunks w). sip_trunk_id t \<in> set (trunk_ids r) \<longrightarrow> ?N \<notin> set (numbers t)"
    from only have nl: "\<not> linked ?C r" by (auto simp: linked_iff)
    note ni = unlinked_id[OF assms(2) r nl]
    with st(1) have "sip_dispatch_rule_id r \<notin> sip_dispatch_rule_id ` set dr" by blast
    with r show "r \<in> set (rules w')" unfolding st(4) by simp
    fix ok
    show "(DeleteSIPDispatchRule (sip_dispatch_rule_id r), ok) \<notin> set (trace env w)"
    proof
      assume "(DeleteSIPDispatchRule (sip_dispatch_rule_id r), ok) \<in> set (trace env w)"
      then have "DeleteSIPDispatchRule (sip_dispatch_rule_id r) \<in> set (map fst (trace env w))"
        by force
      with trace_requests[of env w]
      have "DeleteSIPDispatchRule (sip_dispatch_rule_id r) \<in> set (body_plan ?N w)"
        by auto
      from planned_rule_deletion[OF this] ni show False by simp
    qed
  qed
  have 3: "\<not> isl res \<longrightarrow>
            (\<exists>t\<in>set (trunks w'). numbers t = [?N] \<and> sip_trunk_id t = fresh_ids w (issued w))"
  proof
    assume "\<not> isl res"
    with st(5) have "stored_trunk ?N w \<in> set (trunks w')" unfolding st(3) by simp
    moreover have "numbers (stored_trunk ?N w) = [?N]"
      "sip_trunk_id (stored_trunk ?N w) = fresh_ids w (issued w)"
      by (simp_all add: stored_trunk_def new_trunk_def)
    ultimately show "\<exists>t\<in>set (trunks w'). numbers t = [?N] \<and> sip_trunk_id t = fresh_ids w (issued w)"
      by blast
  qed
  from 1 2 3 m show ?thesis by simp
qed

text \<open>
  In the example world the trunk with the other number and the rule on it are kept.
\<close>

theorem other_numbers_untouched_witness:
  "distinct (map sip_trunk_id (trunks example_world))
   \<and> distinct (map sip_dispatch_rule_id (rules example_world))
   \<and> other_trunk \<in> set (trunks example_world)
   \<and> VOBIZ_INBOUND_NUMBER example_env \<notin> set (numbers other_trunk)
   \<and> other_rule \<in> set (rules example_world)
   \<and> other_trunk \<in> set (trunks (snd (main example_env example_world)))
   \<and> (DeleteSIPTrunk (sip_trunk_id other_trunk), True) \<notin> set (trace example_env example_world)
   \<and> other_rule \<in> set (rules (snd (main example_env example_world)))
   \<and> (DeleteSIPDispatchRule (sip_dispatch_rule_id other_rule), True)
        \<notin> set (trace example_env example_world)
   \<and> (\<exists>t\<in>set (trunks (snd (main example_env example_world))).
         numbers t = [VOBIZ_INBOUND_NUMBER example_env]
       \<and> sip_trunk_id t = fresh_ids example_world (issued example_world))"
proof -
  have h1: "distinct (map sip_trunk_id (trunks example_world))" by (simp add: example_defs)
  have h2: "distinct (map sip_dispatch_rule_id (rules example_world))" by (simp add: example_defs)
  have t: "other_trunk \<in> set (trunks example_world)"
    "VOBIZ_INBOUND_NUMBER example_env \<notin> set (numbers other_trunk)"
    by (simp_all add: example_defs VOBIZ_INBOUND_NUMBER_def)
  have r: "other_rule \<in> set (rules example_world)"
    "\<forall>t\<in>set (trunks example_world). sip_trunk_id t \<in> set (trunk_ids other_rule) \<longrightarrow>
        VOBIZ_INBOUND_NUMBER example_env \<notin> set (numbers t)"
    by (simp_all add: example_defs VOBIZ_INBOUND_NUMBER_def)
  have ok: "\<not> isl (fst (main example_env example_world))"
    by (simp add: main_defs example_defs)
  from other_numbers_untouched[OF h1 h2, of example_env] h1 h2 t r ok show ?thesis by blast
qed

subsection \<open>C5\<close>

text \<open>
  C5. Trunk creation: a run that returned issued exactly one request to create a trunk,
  with the target number as its only number, the address list \<open>0.0.0.0/0\<close> and noise
  suppression enabled; the identifier it reports is the one the remote service assigned,
  and the trunk is stored under it. No run issues more than one such request.
\<close>

theorem trunk_created_once:
  "(fst (main env w) = Inr s \<longrightarrow>
       filter is_create_trunk (map fst (trace env w)) =
         [CreateSIPInboundTrunk
            \<lparr>sip_trunk_id = '''', trunk_name = ''Vobiz Inbound'',
             numbers = [VOBIZ_INBOUND_NUMBER env],
             allowed_addresses = [''0.0.0.0/0''], krisp_enabled = True\<rparr>]
     \<and> inbound_trunk s = fresh_ids w (issued w)
     \<and> last (trunks (snd (main env w))) =
         \<lparr>sip_trunk_id = fresh_ids w (issued w), trunk_name = ''Vobiz Inbound'',
          numbers = [VOBIZ_INBOUND_NUMBER env],
          allowed_addresses = [''0.0.0.0/0''], krisp_enabled = True\<rparr>)
   \<and> length (filter is_create_trunk (map fst (trace env w))) \<le> 1"
proof (intro conjI impI)
  let ?N = "VOBIZ_INBOUND_NUMBER env"
  show "length (filter is_create_trunk (map fst (trace env w))) \<le> 1"
  proof (cases "client_ok w \<and> LIVEKIT_URL env \<noteq> None")
    case False
    with trace_none(1)[of w env] show ?thesis by auto
  next
    case True
    then have tr: "map fst (trace env w) =
        map fst (attempt (faults w) (length (calls w)) (body_plan ?N w)) @ [AClose]"
      using trace_run(1)[of w env] by simp
    from filter_prefix_length[OF attempt_prefix, of is_create_trunk "faults w" "length (calls w)"
        "body_plan ?N w"]
    show ?thesis unfolding tr by (simp add: body_plan_create_trunk)
  qed
next
  let ?N = "VOBIZ_INBOUND_NUMBER env"
  assume s: "fst (main env w) = Inr s"
  from main_success(3)[OF s]
  have tr: "map fst (trace env w) = body_plan ?N w @ [AClose]"
    by (simp add: comp_def)
  show "filter is_create_trunk (map fst (trace env w)) =
         [CreateSIPInboundTrunk
            \<lparr>sip_trunk_id = '''', trunk_name = ''Vobiz Inbound'',
             numbers = [?N],
             allowed_addresses = [''0.0.0.0/0''], krisp_enabled = True\<rparr>]"
    unfolding tr by (simp add: body_plan_create_trunk new_trunk_def)
  from s have m: "main env w = (Inr s, snd (main env w))"
    by (cases "main env w") simp
  note st = main_success_store[OF m]
  from st(4) show "inbound_trunk s = fresh_ids w (issued w)" .
  show "last (trunks (snd (main env w))) =
         \<lparr>sip_trunk_id = fresh_ids w (issued w), trunk_name = ''Vobiz Inbound'',
          numbers = [?N],
          allowed_addresses = [''0.0.0.0/0''], krisp_enabled = True\<rparr>"
    unfolding st(1) by (simp add: stored_trunk_def new_trunk_def)
qed

text \<open>
  The run on the example world returns and reports the first assigned identifier.
\<close>

theorem trunk_created_once_witness:
  "fst (main example_env example_world) =
     Inr \<lparr>inbound_trunk = ''ST_a'', dispatch_rule = ''SDR_a'',
          primary_uri = ''demo.sip.livekit.cloud''\<rparr>
   \<and> filter is_create_trunk (map fst (trace example_env example_world)) =
       [CreateSIPInboundTrunk
          \<lparr>sip_trunk_id = '''', trunk_name = ''Vobiz Inbound'',
           numbers = [VOBIZ_INBOUND_NUMBER example_env],
           allowed_addresses = [''0.0.0.0/0''], krisp_enabled = True\<rparr>]
   \<and> fresh_ids example_world (issued example_world) = ''ST_a''
   \<and> last (trunks (snd (main example_env example_world))) =
         \<lparr>sip_trunk_id = fresh_ids example_world (issued example_world),
          trunk_name = ''Vobiz Inbound'',
          numbers = [VOBIZ_INBOUND_NUMBER example_env],
          allowed_addresses = [''0.0.0.0/0''], krisp_enabled = True\<rparr>"
proof -
  have h: "fst (main example_env example_world) =
     Inr \<lparr>inbound_trunk = ''ST_a'', dispatch_rule = ''SDR_a'',
          primary_uri = ''demo.sip.livekit.cloud''\<rparr>"
    by (simp add: main_defs example_defs)
  have i: "fresh_ids example_world (issued example_world) = ''ST_a''"
    by (simp add: example_defs)
  from trunk_created_once[of example_env example_world
      "\<lparr>inbound_trunk = ''ST_a'', dispatch_rule = ''SDR_a'',
        primary_uri = ''demo.sip.livekit.cloud''\<rparr>"] h i
  show ?thesis by blast
qed

subsection \<open>C6\<close>

text \<open>
  C6. Rule creation: a run that returned issued exactly one request to create a dispatch
  rule, which names only the new trunk, is of the individual variant with room prefix
  \<open>call-\<close> and dispatches the one agent \<open>voice-assistant\<close>. When no trunk is stored, the
  client is constructed, the project URL is set and no request raises, the run returns and
  its log is the listing, the two creations and the release of the client: one trunk and
  one rule are created.
\<close>

theorem rule_created_once:
  "(fst (main env w) = Inr s \<longrightarrow>
       filter is_create_rule (map fst (trace env w)) =
         [CreateSIPDispatchRule
            \<lparr>sip_dispatch_rule_id = '''', rule_name = ''Inbound Agent Dispatch'',
             trunk_ids = [inbound_trunk s], rule = dispatch_rule_individual ''call-'',
             room_config_agents = [''voice-assistant'']\<rparr>]
     \<and> dispatch_rule s = fresh_ids w (Suc (issued w)))
   \<and> (trunks w = [] \<and> client_ok w \<and> LIVEKIT_URL env \<noteq> None \<and> (\<forall>k. \<not> faults w k) \<longrightarrow>
       \<not> isl (fst (main env w))
     \<and> trace env w =
         [(ListSIPInboundTrunk, True),
          (CreateSIPInboundTrunk
            \<lparr>sip_trunk_id = '''', trunk_name = ''Vobiz Inbound'',
             numbers = [VOBIZ_INBOUND_NUMBER env],
             allowed_addresses = [''0.0.0.0/0''], krisp_enabled = True\<rparr>, True),
          (CreateSIPDispatchRule
            \<lparr>sip_dispatch_rule_id = '''', rule_name = ''Inbound Agent Dispatch'',
             trunk_ids = [fresh_ids w (issued w)], rule = dispatch_rule_individual ''call-'',
             room_config_agents = [''voice-assistant'']\<rparr>, True),
          (AClose, True)]
     \<and> trunks (snd (main env w)) =
         [\<lparr>sip_trunk_id = fresh_ids w (issued w), trunk_name = ''Vobiz Inbound'',
           numbers = [VOBIZ_INBOUND_NUMBER env],
           allowed_addresses = [''0.0.0.0/0''], krisp_enabled = True\<rparr>]
     \<and> rules (snd (main env w)) = rules w @
         [\<lparr>sip_dispatch_rule_id = fresh_ids w (Suc (issued w)),
           rule_name = ''Inbound Agent Dispatch'',
           trunk_ids = [fresh_ids w (issued w)], rule = dispatch_rule_individual ''call-'',
           room_config_agents = [''voice-assistant'']\<rparr>])"
proof (intro conjI impI)
  let ?N = "VOBIZ_INBOUND_NUMBER env"
  assume s: "fst (main env w) = Inr s"
  from main_success(3)[OF s]
  have tr: "map fst (trace env w) = body_plan ?N w @ [AClose]"
    by (simp add: comp_def)
  from s have m: "main env w = (Inr s, snd (main env w))"
    by (cases "main env w") simp
  note st = main_success_store[OF m]
  show "filter is_create_rule (map fst (trace env w)) =
         [CreateSIPDispatchRule
            \<lparr>sip_dispatch_rule_id = '''', rule_name = ''Inbound Agent Dispatch'',
             trunk_ids = [inbound_trunk s], rule = dispatch_rule_individual ''call-'',
             room_config_agents = [''voice-assistant'']\<rparr>]"
    unfolding tr st(4)
    by (simp add: body_plan_create_rule new_dispatch_rule_def AGENT_NAME_def)
  from st(5) show "dispatch_rule s = fresh_ids w (Suc (issued w))" .
next
  let ?N = "VOBIZ_INBOUND_NUMBER env"
  assume a: "trunks w = [] \<and> client_ok w \<and> LIVEKIT_URL env \<noteq> None \<and> (\<forall>k. \<not> faults w k)"
  then have c: "client_ok w" and u: "LIVEKIT_URL env \<noteq> None" and nf: "\<forall>k. \<not> faults w k"
    and e: "trunks w = []"
    by simp_all
  from main_no_fault[OF c u nf] show ni: "\<not> isl (fst (main env w))" .
  then obtain s where s: "fst (main env w) = Inr s" by (cases "fst (main env w)") auto
  from main_success(3)[OF s] e
  show "trace env w =
         [(ListSIPInboundTrunk, True),
          (CreateSIPInboundTrunk
            \<lparr>sip_trunk_id = '''', trunk_name = ''Vobiz Inbound'',
             numbers = [?N],
             allowed_addresses = [''0.0.0.0/0''], krisp_enabled = True\<rparr>, True),
          (CreateSIPDispatchRule
            \<lparr>sip_dispatch_rule_id = '''', rule_name = ''Inbound Agent Dispatch'',
             trunk_ids = [fresh_ids w (issued w)], rule = dispatch_rule_individual ''call-'',
             room_config_agents = [''voice-assistant'']\<rparr>, True),
          (AClose, True)]"
    by (simp add: body_plan_def cleanup_plan_def new_trunk_def new_dispatch_rule_def AGENT_NAME_def)
  from s have m: "main env w = (Inr s, snd (main env w))"
    by (cases "main env w") simp
  note st = main_success_store[OF m]
  from st(1) e show "trunks (snd (main env w)) =
         [\<lparr>sip_trunk_id = fresh_ids w (issued w), trunk_name = ''Vobiz Inbound'',
           numbers = [?N],
           allowed_addresses = [''0.0.0.0/0''], krisp_enabled = True\<rparr>]"
    by (simp add: stored_trunk_def new_trunk_def)
  from st(2) e show "rules (snd (main env w)) = rules w @
         [\<lparr>sip_dispatch_rule_id = fresh_ids w (Suc (issued w)),
           rule_name = ''Inbound Agent Dispatch'',
           trunk_ids = [fresh_ids w (issued w)], rule = dispatch_rule_individual ''call-'',
           room_config_agents = [''voice-assistant'']\<rparr>]"
    by (simp add: stored_rule_def new_dispatch_rule_def AGENT_NAME_def)
qed

text \<open>
  The run on the example world, and the run on the empty world (scenario A).
\<close>

theorem rule_created_once_witness:
  "fst (main example_env example_world) =
     Inr \<lparr>inbound_trunk = ''ST_a'', dispatch_rule = ''SDR_a'',
          primary_uri = ''demo.sip.livekit.cloud''\<rparr>
   \<and> filter is_create_rule (map fst (trace example_env example_world)) =
       [CreateSIPDispatchRule
          \<lparr>sip_dispatch_rule_id = '''', rule_name = ''Inbound Agent Dispatch'',
           trunk_ids = [''ST_a''], rule = dispatch_rule_individual ''call-'',
           room_config_agents = [''voice-assistant'']\<rparr>]
   \<and> trunks empty_world = []
   \<and> trace example_env empty_world =
         [(ListSIPInboundTrunk, True),
          (CreateSIPInboundTrunk
            \<lparr>sip_trunk_id = '''', trunk_name = ''Vobiz Inbound'',
             numbers = [VOBIZ_INBOUND_NUMBER example_env],
             allowed_addresses = [''0.0.0.0/0''], krisp_enabled = True\<rparr>, True),
          (CreateSIPDispatchRule
            \<lparr>sip_dispatch_rule_id = '''', rule_name = ''Inbound Agent Dispatch'',
             trunk_ids = [fresh_ids empty_world (issued empty_world)],
             rule = dispatch_rule_individual ''call-'',
             room_config_agents = [''voice-assistant'']\<rparr>, True),
          (AClose, True)]"
proof -
  let ?s = "\<lparr>inbound_trunk = ''ST_a'', dispatch_rule = ''SDR_a'',
          primary_uri = ''demo.sip.livekit.cloud''\<rparr>"
  have h: "fst (main example_env example_world) = Inr ?s"
    by (simp add: main_defs example_defs)
  have e: "trunks empty_world = [] \<and> client_ok empty_world \<and> LIVEKIT_URL example_env \<noteq> None
      \<and> (\<forall>k. \<not> faults empty_world k)"
    by (simp add: example_defs LIVEKIT_URL_def)
  from rule_created_once[of example_env example_world ?s] h
  have 1: "filter is_create_rule (map fst (trace example_env example_world)) =
       [CreateSIPDispatchRule
          \<lparr>sip_dispatch_rule_id = '''', rule_name = ''Inbound Agent Dispatch'',
           trunk_ids = [''ST_a''], rule = dispatch_rule_individual ''call-'',
           room_config_agents = [''voice-assistant'']\<rparr>]"
    by simp
  from rule_created_once[of example_env empty_world ?s] e 1 h show ?thesis by blast
qed

subsection \<open>C7\<close>

text \<open>
  C7. A deletion that raises ends the run: it is followed in the log by the release of the
  client and by nothing else, every request before it returned, none of the requests of
  the run is a creation, and the run ends in an error.
\<close>

theorem failed_deletion_aborts:
  assumes "(rq, False) \<in> set (trace env w)" and "is_deletion rq"
  shows "(\<exists>xs ok. trace env w = xs @ [(rq, False), (AClose, ok)] \<and> list_all snd xs
            \<and> list_all (\<lambda>e. \<not> is_creation (fst e)) xs)
         \<and> isl (fst (main env w))"
proof -
  let ?N = "VOBIZ_INBOUND_NUMBER env"
  let ?tb = "attempt (faults w) (length (calls w)) (body_plan ?N w)"
  from assms(1) have ne: "trace env w \<noteq> []" by auto
  with trace_none(1)[of w env] have c: "client_ok w" and u: "LIVEKIT_URL env \<noteq> None"
    by blast+
  note tr = trace_run(1)[OF c u]
  from assms tr have "(rq, False) \<in> set ?tb" by auto
  from attempt_failed_last[OF this] obtain ps qs where
    p: "body_plan ?N w = ps @ rq # qs" and t: "?tb = map (\<lambda>rq. (rq, True)) ps @ [(rq, False)]"
    by blast
  from assms(2) have notin: "rq \<notin> set [CreateSIPInboundTrunk (new_trunk ?N),
        CreateSIPDispatchRule (new_dispatch_rule (fresh_ids w (issued w)))]"
    by auto
  from p have eq: "ps @ rq # qs =
      (ListSIPInboundTrunk # cleanup_plan (find_conflicts ?N (trunks w) []) (rules w))
      @ [CreateSIPInboundTrunk (new_trunk ?N),
         CreateSIPDispatchRule (new_dispatch_rule (fresh_ids w (issued w)))]"
    by (simp add: body_plan_split)
  from inside_prefix[OF eq notin] obtain vs where
    "ListSIPInboundTrunk # cleanup_plan (find_conflicts ?N (trunks w) []) (rules w) = ps @ rq # vs"
    by blast
  then have "set ps \<subseteq> set (ListSIPInboundTrunk # cleanup_plan (find_conflicts ?N (trunks w) []) (rules w))"
    by (metis Un_upper1 set_append)
  with cleanup_plan_no_creation have nc: "\<forall>x\<in>set ps. \<not> is_creation x" by blast
  from t have nok: "\<not> list_all snd ?tb" by simp
  have "trace env w = map (\<lambda>rq. (rq, True)) ps
      @ [(rq, False), (AClose, \<not> faults w (length (calls w) + length ?tb))]"
    unfolding tr t by simp
  moreover have "list_all snd (map (\<lambda>rq. (rq, True)) ps)" by (simp add: list_all_iff)
  moreover from nc have "list_all (\<lambda>e. \<not> is_creation (fst e)) (map (\<lambda>rq. (rq, True)) ps)"
    by (simp add: list_all_iff)
  moreover from trace_run(2)[OF c u] nok have "isl (fst (main env w))" by simp
  ultimately show ?thesis by blast
qed

text \<open>
  In the failing world the second deletion of a rule raises (scenario D).
\<close>

theorem failed_deletion_aborts_witness:
  "(DeleteSIPDispatchRule ''SDR_2'', False) \<in> set (trace example_env failing_world)
   \<and> is_deletion (DeleteSIPDispatchRule ''SDR_2'')
   \<and> (\<exists>xs ok. trace example_env failing_world
          = xs @ [(DeleteSIPDispatchRule ''SDR_2'', False), (AClose, ok)]
        \<and> list_all snd xs \<and> list_all (\<lambda>e. \<not> is_creation (fst e)) xs)
   \<and> isl (fst (main example_env failing_world))"
proof -
  have h: "(DeleteSIPDispatchRule ''SDR_2'', False) \<in> set (trace example_env failing_world)"
    by (simp add: main_defs example_defs)
  have d: "is_deletion (DeleteSIPDispatchRule ''SDR_2'')" by simp
  from failed_deletion_aborts[OF h d] h d show ?thesis by blast
qed

subsection \<open>C8\<close>

text \<open>
  C8. The release of the client is not reached on every exit path. With the project URL
  unset and the client constructed, the run ends at line 20 with the \<open>AttributeError\<close>,
  before the \<open>try\<close> statement is entered: a client has been constructed and no release
  is in the log. (On every path through the \<open>try\<close> statement the client is released
  once, by the last request of the run: \<open>released_after_try\<close>.)
\<close>

theorem client_left_open:
  "client_ok example_world \<and> LIVEKIT_URL unset_env = None
   \<and> fst (main unset_env example_world) = Inl AttributeError
   \<and> opened (snd (main unset_env example_world)) = Suc (opened example_world)
   \<and> filter (\<lambda>e. fst e = AClose) (trace unset_env example_world) = []"
  by (simp add: main_defs example_defs)

subsection \<open>C9\<close>

text \<open>
  C9, as stated, has the run with the project URL unset always end where the endpoint is
  derived. That fails when the client constructor of line 18 raises: the run ends there,
  with the constructor's error, and line 20 is never reached.
\<close>

theorem missing_url_not_at_derivation:
  "LIVEKIT_URL unset_env = None
   \<and> fst (main unset_env no_client_world) = Inl ClientError
   \<and> fst (main unset_env no_client_world) \<noteq> Inl AttributeError
   \<and> opened (snd (main unset_env no_client_world)) = opened no_client_world
   \<and> trace unset_env no_client_world = []"
  by (simp add: main_defs example_defs)

text \<open>
  C9, amended. With the project URL unset the run ends in an error before any request is
  issued: the log of the run is empty and the remote store is as it was. The error is the
  \<open>AttributeError\<close> of line 20, where the endpoint is derived, when the client constructor
  of line 18 returned; when the constructor raised, the error is the constructor's and no
  client was constructed.
\<close>

theorem missing_url_crash:
  assumes "LIVEKIT_URL env = None"
  shows "trace env w = [] \<and> isl (fst (main env w))
       \<and> trunks (snd (main env w)) = trunks w \<and> rules (snd (main env w)) = rules w
       \<and> (client_ok w \<longrightarrow>
             fst (main env w) = Inl AttributeError
           \<and> opened (snd (main env w)) = Suc (opened w))
       \<and> (\<not> client_ok w \<longrightarrow>
             fst (main env w) = Inl ClientError
           \<and> opened (snd (main env w)) = opened w)"
  using assms by (cases "client_ok w") (simp_all add: trace_def main_no_client main_no_url)

text \<open>
  The run with nothing set: on the example world, and on the world whose constructor
  raises.
\<close>

theorem missing_url_crash_witness:
  "LIVEKIT_URL unset_env = None \<and> client_ok example_world \<and> \<not> client_ok no_client_world
   \<and> trace unset_env example_world = []
   \<and> fst (main unset_env example_world) = Inl AttributeError
   \<and> trace unset_env no_client_world = []
   \<and> fst (main unset_env no_client_world) = Inl ClientError"
proof -
  have h: "LIVEKIT_URL unset_env = None" by (simp add: LIVEKIT_URL_def example_defs)
  have c: "client_ok example_world" "\<not> client_ok no_client_world"
    by (simp_all add: example_defs)
  from missing_url_crash[OF h, of example_world] missing_url_crash[OF h, of no_client_world] h c
  show ?thesis by blast
qed

subsection \<open>C10\<close>

text \<open>
  C10. A dispatch rule that names at least one conflicting trunk is deleted as a whole,
  whatever other trunks it names: in a run that returned, the log holds a deletion of the
  rule that returned, and no rule stored before the run under its identifier is left (the
  store after the run holds, before the newly created rule, no rule with that
  identifier). No request of the script detaches a trunk from a rule.
\<close>

theorem mixed_rule_deleted:
  assumes "fst (main env w) = Inr s" and "r \<in> set (rules w)"
    and "tid \<in> set (find_conflicts (VOBIZ_INBOUND_NUMBER env) (trunks w) [])"
    and "tid \<in> set (trunk_ids r)"
  shows "(DeleteSIPDispatchRule (sip_dispatch_rule_id r), True) \<in> set (trace env w)
       \<and> r \<notin> set (butlast (rules (snd (main env w))))
       \<and> (\<forall>r'\<in>set (butlast (rules (snd (main env w)))).
             sip_dispatch_rule_id r' \<noteq> sip_dispatch_rule_id r)"
proof -
  let ?N = "VOBIZ_INBOUND_NUMBER env"
  let ?C = "find_conflicts ?N (trunks w) []"
  from assms(3,4) have l: "linked ?C r" by (auto simp: linked_def list_ex_iff)
  from assms(3) have ne: "?C \<noteq> []" by auto
  from assms(2) l ne have "DeleteSIPDispatchRule (sip_dispatch_rule_id r) \<in> set (body_plan ?N w)"
    by (simp add: body_plan_def cleanup_plan_def rule_deletions_def)
  with main_success(3)[OF assms(1)]
  have 1: "(DeleteSIPDispatchRule (sip_dispatch_rule_id r), True) \<in> set (trace env w)"
    by auto
  from assms(1) have m: "main env w = (Inr s, snd (main env w))"
    by (cases "main env w") simp
  note st = main_success_store[OF m]
  have 3: "\<forall>r'\<in>set (butlast (rules (snd (main env w)))).
             sip_dispatch_rule_id r' \<noteq> sip_dispatch_rule_id r"
    unfolding st(2) using assms(2) l by auto
  then have 2: "r \<notin> set (butlast (rules (snd (main env w))))" by blast
  from 1 2 3 show ?thesis by blast
qed

text \<open>
  The rule on both trunks of the example world names a conflicting trunk and one that is not.
\<close>

theorem mixed_rule_deleted_witness:
  "mixed_rule \<in> set (rules example_world)
   \<and> ''ST_1'' \<in> set (find_conflicts (VOBIZ_INBOUND_NUMBER example_env) (trunks example_world) [])
   \<and> ''ST_1'' \<in> set (trunk_ids mixed_rule)
   \<and> ''ST_2'' \<in> set (trunk_ids mixed_rule)
   \<and> ''ST_2'' \<notin> set (find_conflicts (VOBIZ_INBOUND_NUMBER example_env) (trunks example_world) [])
   \<and> (DeleteSIPDispatchRule (sip_dispatch_rule_id mixed_rule), True)
        \<in> set (trace example_env example_world)
   \<and> mixed_rule \<notin> set (butlast (rules (snd (main example_env example_world))))"
proof -
  have h: "fst (main example_env example_world) =
     Inr \<lparr>inbound_trunk = ''ST_a'', dispatch_rule = ''SDR_a'',
          primary_uri = ''demo.sip.livekit.cloud''\<rparr>"
    by (simp add: main_defs example_defs)
  have m: "mixed_rule \<in> set (rules example_world)"
    "''ST_1'' \<in> set (find_conflicts (VOBIZ_INBOUND_NUMBER example_env) (trunks example_world) [])"
    "''ST_1'' \<in> set (trunk_ids mixed_rule)"
    by (simp_all add: example_defs VOBIZ_INBOUND_NUMBER_def)
  have o: "''ST_2'' \<in> set (trunk_ids mixed_rule)"
    "''ST_2'' \<notin> set (find_conflicts (VOBIZ_INBOUND_NUMBER example_env) (trunks example_world) [])"
    by (simp_all add: example_defs VOBIZ_INBOUND_NUMBER_def)
  from mixed_rule_deleted[OF h m] m o show ?thesis by blast
qed

end
